theory Spec2Isabelle
  imports Main
begin

section \<open>Errors\<close>

text \<open>
  Go's \<^verbatim>\<open>error\<close> values. The sentinels of the repository are constructors of their
  own; an error of package \<^verbatim>\<open>os\<close> is opaque; \<^verbatim>\<open>fmt.Errorf("...: %w", err)\<close> keeps its
  formatted prefix and the error it wraps; \<^verbatim>\<open>New\<close> stands for any other error value
  (for instance one made by an injected provider).
\<close>

datatype os_error = PathError string

datatype error =
    ErrPodIDNotFound
  | ErrContainerIDNotFound
  | ErrTooLong
  | OS os_error
  | Errorf string error
  | New string

text \<open>\<^verbatim>\<open>errors.Is\<close>: the error itself, or an error somewhere along its chain of wrapped errors.\<close>

fun errors_Is :: "error \<Rightarrow> error \<Rightarrow> bool" where
  "errors_Is (Errorf m e) target = (Errorf m e = target \<or> errors_Is e target)"
| "errors_Is e target = (e = target)"

section \<open>Package podid: the memoizing resolver\<close>

text \<open>
  The package variables \<^verbatim>\<open>cachedID\<close> and \<^verbatim>\<open>hasID\<close>, together with \<open>world\<close>, everything
  outside the package that a provider reads or changes (the file system, a call counter
  of a test), and \<open>calls\<close>, a ghost counter of the provider invocations made by \<^verbatim>\<open>Get\<close>.
  The lock \<^verbatim>\<open>mu\<close> has no effect on a sequential run and is not represented.
\<close>

record 'w pkg =
  cachedID :: string
  hasID :: bool
  world :: 'w
  calls :: nat

text \<open>
  A provider is a Go \<^verbatim>\<open>func() (string, error)\<close>: it returns both components and may
  change the world. It has no access to the cache fields.
\<close>

type_synonym 'w provider = "'w \<Rightarrow> (string \<times> error option) \<times> 'w"

text \<open>The state at process start: \<^verbatim>\<open>cachedID\<close> and \<^verbatim>\<open>hasID\<close> hold their zero values.\<close>

definition init_pkg :: "'w \<Rightarrow> 'w pkg" where
  "init_pkg w = \<lparr>cachedID = [], hasID = False, world = w, calls = 0\<rparr>"

text \<open>
  \<^verbatim>\<open>Get\<close>, with the current value of the package variable \<^verbatim>\<open>getPodIDFunc\<close> as its first
  argument (the tests replace it between calls).
\<close>

definition Get :: "'w provider \<Rightarrow> 'w pkg \<Rightarrow> (string \<times> error option) \<times> 'w pkg" where
  "Get getPodIDFunc s =
     (if hasID s then ((cachedID s, None), s)
      else
        (case getPodIDFunc (world s) of
           ((ident, err), w) \<Rightarrow>
             (let s1 = s\<lparr>world := w, calls := calls s + 1\<rparr>
              in (case err of
                    Some e \<Rightarrow> (([], Some e), s1)
                  | None \<Rightarrow> ((ident, None), s1\<lparr>cachedID := ident, hasID := True\<rparr>)))))"

text \<open>A sequence of calls of \<^verbatim>\<open>Get\<close>, the i-th one made while \<^verbatim>\<open>getPodIDFunc\<close> is the i-th provider.\<close>

fun Gets :: "'w provider list \<Rightarrow> 'w pkg \<Rightarrow> (string \<times> error option) list \<times> 'w pkg" where
  "Gets [] s = ([], s)"
| "Gets (p # ps) s =
     (case Get p s of
        (r, s1) \<Rightarrow> (case Gets ps s1 of (rs, s2) \<Rightarrow> (r # rs, s2)))"

text \<open>
  The providers injected by the tests of the package. \<^verbatim>\<open>TestGetCachesSuccessfulResult\<close>
  counts its calls and always succeeds; \<^verbatim>\<open>TestGetDoesNotCacheFailure\<close> counts its calls,
  fails on the first one and succeeds afterwards. The world is the tests' variable
  \<^verbatim>\<open>calls\<close>.
\<close>

definition stub_ok :: "string \<Rightarrow> nat provider" where
  "stub_ok want n = ((want, None), n + 1)"

definition stub_fail_once :: "error \<Rightarrow> string \<Rightarrow> nat provider" where
  "stub_fail_once e want n = (if n + 1 = 1 then (([], Some e), n + 1) else ((want, None), n + 1))"

section \<open>Package podid: the pattern matcher\<close>

text \<open>
  \<^verbatim>\<open>podIDRegex\<close> is
  \<^verbatim>\<open>/pods/([0-9a-f]{8}-[0-9a-f]{4}-[0-9a-f]{4}-[0-9a-f]{4}-[0-9a-f]{12})/\<close>:
  a sequence of single-character classes, each a literal or \<^verbatim>\<open>[0-9a-f]\<close>, in three parts:
  what stands before the capture group, the group, and what stands after it. All of its
  characters are ASCII, so matching bytes is matching runes.
\<close>

datatype cclass = Lit char | LowerHex

fun accepts :: "cclass \<Rightarrow> char \<Rightarrow> bool" where
  "accepts (Lit a) c = (c = a)"
| "accepts LowerHex c = (c \<in> set ''0123456789abcdef'')"

definition regex_before :: "cclass list" where
  "regex_before = map Lit ''/pods/''"

definition regex_group :: "cclass list" where
  "regex_group =
     replicate 8 LowerHex @ [Lit CHR ''-''] @ replicate 4 LowerHex @ [Lit CHR ''-''] @
     replicate 4 LowerHex @ [Lit CHR ''-''] @ replicate 4 LowerHex @ [Lit CHR ''-''] @
     replicate 12 LowerHex"

definition regex_after :: "cclass list" where
  "regex_after = [Lit CHR ''/'']"

definition podIDRegex :: "cclass list" where
  "podIDRegex = regex_before @ regex_group @ regex_after"

text \<open>The pattern matches at the very start of the text.\<close>

fun match_here :: "cclass list \<Rightarrow> string \<Rightarrow> bool" where
  "match_here [] s = True"
| "match_here (p # ps) [] = False"
| "match_here (p # ps) (c # cs) = (accepts p c \<and> match_here ps cs)"

text \<open>The text from its leftmost match on, if the pattern matches anywhere.\<close>

fun leftmost :: "cclass list \<Rightarrow> string \<Rightarrow> string option" where
  "leftmost re [] = (if match_here re [] then Some [] else None)"
| "leftmost re (c # cs) = (if match_here re (c # cs) then Some (c # cs) else leftmost re cs)"

text \<open>
  \<^verbatim>\<open>podIDRegex.FindStringSubmatch(line)\<close>: nil when nothing matches, else the text of the
  leftmost match followed by the text of its capture group.
\<close>

definition FindStringSubmatch :: "string \<Rightarrow> string list" where
  "FindStringSubmatch line =
     (case leftmost podIDRegex line of
        None \<Rightarrow> []
      | Some s \<Rightarrow>
          [take (length podIDRegex) s,
           take (length regex_group) (drop (length regex_before) s)])"

section \<open>Package podid: scanning a file\<close>

text \<open>
  A file that opens: the bytes its reads deliver, and the error of the read that ends
  them (\<open>None\<close> when that read reports the end of the file). Opening a path gives an
  error of package \<^verbatim>\<open>os\<close> or such a file.
\<close>

record os_file =
  content :: string
  read_err :: "os_error option"

type_synonym filesystem = "string \<Rightarrow> os_error + os_file"

definition NL :: char where
  "NL = CHR 0x0A"

definition CR :: char where
  "CR = CHR 0x0D"

text \<open>\<^verbatim>\<open>scanner.Buffer(make([]byte, 0, 64*1024), 1024*1024)\<close>.\<close>

definition startBufSize :: nat where
  "startBufSize = 64 * 1024"

definition maxTokenSize :: nat where
  "maxTokenSize = 1024 * 1024"

text \<open>
  The buffer of \<^verbatim>\<open>bufio.Scanner\<close>. A line of \<open>n\<close> bytes becomes a token once the buffer
  holds it and one byte more (its newline, or room for the read that reports the end of
  the input). A full buffer is doubled, up to \<^verbatim>\<open>maxTokenSize\<close>; a full buffer of that
  size is the error \<^verbatim>\<open>ErrTooLong\<close>.
\<close>

function buf_fits :: "nat \<Rightarrow> nat \<Rightarrow> nat \<Rightarrow> bool" where
  "buf_fits n cap maxTok =
     (if n < cap then True
      else if cap \<ge> maxTok then False
      else buf_fits n (min (if cap * 2 = 0 then 4096 else cap * 2) maxTok) maxTok)"
  by pat_completeness auto
termination
  by (relation "measure (\<lambda>(n, cap, maxTok). maxTok - cap)") (auto split: if_splits)

declare buf_fits.simps [simp del]

text \<open>\<^verbatim>\<open>dropCR\<close> of \<^verbatim>\<open>bufio.ScanLines\<close>.\<close>

definition dropCR :: "string \<Rightarrow> string" where
  "dropCR data = (if data \<noteq> [] \<and> last data = CR then butlast data else data)"

text \<open>
  One call of \<^verbatim>\<open>scanner.Scan()\<close> with the split function \<^verbatim>\<open>ScanLines\<close>, on the bytes not
  yet consumed: either the next token and the bytes after it, or the end of the scan
  with the value of \<^verbatim>\<open>scanner.Err()\<close>. A line ends at its newline or, the last one, at
  the end of the bytes; an empty line is a token.
\<close>

datatype scan = Token string string | Stop "error option"

definition Scan :: "string \<Rightarrow> os_error option \<Rightarrow> scan" where
  "Scan data rerr =
     (if data = [] then Stop (map_option OS rerr)
      else
        (let line = takeWhile (\<lambda>c. c \<noteq> NL) data
         in if \<not> buf_fits (length line) startBufSize maxTokenSize then Stop (Some ErrTooLong)
            else Token (dropCR line) (drop (length line + 1) data)))"

text \<open>The loop of \<^verbatim>\<open>GetFromFile\<close> and what follows it.\<close>

function scan_loop :: "string \<Rightarrow> string \<Rightarrow> os_error option \<Rightarrow> string \<times> error option" where
  "scan_loop path data rerr =
     (case Scan data rerr of
        Token line rest \<Rightarrow>
          (let match = FindStringSubmatch line
           in if length match = 2 then (match ! 1, None)
              else scan_loop path rest rerr)
      | Stop (Some err) \<Rightarrow> ([], Some (Errorf (''error reading '' @ path @ '': '') err))
      | Stop None \<Rightarrow> ([], Some ErrPodIDNotFound))"
  by pat_completeness auto
termination
  by (relation "measure (\<lambda>(path, data, rerr). length data)")
     (auto simp: Scan_def Let_def split: if_splits)

declare scan_loop.simps [simp del]

definition GetFromFile :: "filesystem \<Rightarrow> string \<Rightarrow> string \<times> error option" where
  "GetFromFile fs path =
     (case fs path of
        Inl err \<Rightarrow> ([], Some (Errorf (''failed to open '' @ path @ '': '') (OS err)))
      | Inr f \<Rightarrow> scan_loop path (content f) (read_err f))"

definition MountInfoPath :: string where
  "MountInfoPath = ''/proc/self/mountinfo''"

text \<open>\<^verbatim>\<open>getPodIDFromMountInfo\<close>, the initial value of \<^verbatim>\<open>getPodIDFunc\<close>: it reads the file system.\<close>

definition getPodIDFromMountInfo :: "filesystem provider" where
  "getPodIDFromMountInfo fs = (GetFromFile fs MountInfoPath, fs)"

section \<open>Package main: the two-tier container strategy\<close>

text \<open>
  \<^verbatim>\<open>strings.TrimSpace\<close> on the bytes of a string. White space is the six ASCII characters
  tab, newline, vertical tab, form feed, carriage return and space, and the code points
  U+0085, U+00A0, U+1680, U+2000 to U+200A, U+2028, U+2029, U+202F, U+205F and U+3000,
  here in their UTF-8 encoding. A byte sequence that is not a valid encoding decodes to
  U+FFFD, which is not white space, so a rune is white space exactly when its bytes are
  one of these.
\<close>

definition asciiSpace :: "char \<Rightarrow> bool" where
  "asciiSpace c = (c \<in> set [CHR 0x09, CHR 0x0A, CHR 0x0B, CHR 0x0C, CHR 0x0D, CHR 0x20])"

definition unicodeSpace :: "string list" where
  "unicodeSpace =
     [[CHR 0xC2, CHR 0x85], [CHR 0xC2, CHR 0xA0], [CHR 0xE1, CHR 0x9A, CHR 0x80],
      [CHR 0xE2, CHR 0x80, CHR 0x80], [CHR 0xE2, CHR 0x80, CHR 0x81],
      [CHR 0xE2, CHR 0x80, CHR 0x82], [CHR 0xE2, CHR 0x80, CHR 0x83],
      [CHR 0xE2, CHR 0x80, CHR 0x84], [CHR 0xE2, CHR 0x80, CHR 0x85],
      [CHR 0xE2, CHR 0x80, CHR 0x86], [CHR 0xE2, CHR 0x80, CHR 0x87],
      [CHR 0xE2, CHR 0x80, CHR 0x88], [CHR 0xE2, CHR 0x80, CHR 0x89],
      [CHR 0xE2, CHR 0x80, CHR 0x8A], [CHR 0xE2, CHR 0x80, CHR 0xA8],
      [CHR 0xE2, CHR 0x80, CHR 0xA9], [CHR 0xE2, CHR 0x80, CHR 0xAF],
      [CHR 0xE2, CHR 0x81, CHR 0x9F], [CHR 0xE3, CHR 0x80, CHR 0x80]]"

text \<open>The width in bytes of the white-space rune at the start (at the end) of a string, 0 when there is none.\<close>

definition leading_space :: "string \<Rightarrow> nat" where
  "leading_space s =
     (case s of
        [] \<Rightarrow> 0
      | c # _ \<Rightarrow>
          if asciiSpace c then 1
          else (case filter (\<lambda>q. take (length q) s = q) unicodeSpace of
                  [] \<Rightarrow> 0
                | q # _ \<Rightarrow> length q))"

definition trailing_space :: "string \<Rightarrow> nat" where
  "trailing_space s =
     (if s = [] then 0
      else if asciiSpace (last s) then 1
      else (case filter (\<lambda>q. length q \<le> length s \<and> drop (length s - length q) s = q)
                   unicodeSpace of
              [] \<Rightarrow> 0
            | q # _ \<Rightarrow> length q))"

function TrimLeft :: "string \<Rightarrow> string" where
  "TrimLeft s = (let n = leading_space s in if n = 0 then s else TrimLeft (drop n s))"
  by pat_completeness auto
termination
  by (relation "measure length") (auto simp: leading_space_def split: list.splits)

declare TrimLeft.simps [simp del]

function TrimRight :: "string \<Rightarrow> string" where
  "TrimRight s =
     (let n = trailing_space s in if n = 0 then s else TrimRight (take (length s - n) s))"
  by pat_completeness auto
termination
  by (relation "measure length") (auto simp: trailing_space_def split: if_splits)

declare TrimRight.simps [simp del]

definition TrimSpace :: "string \<Rightarrow> string" where
  "TrimSpace s = TrimRight (TrimLeft s)"

text \<open>
  \<^verbatim>\<open>strings.Split(s, sep)\<close> for a separator of one byte: the text before the first
  separator and the split of the text after it, or the whole text when it holds no
  separator. The result is never empty.
\<close>

function Split :: "string \<Rightarrow> char \<Rightarrow> string list" where
  "Split s sep =
     (case dropWhile (\<lambda>c. c \<noteq> sep) s of
        [] \<Rightarrow> [s]
      | _ # rest \<Rightarrow> takeWhile (\<lambda>c. c \<noteq> sep) s # Split rest sep)"
  by pat_completeness auto
termination
proof (relation "measure (\<lambda>(s, sep). length s)")
  show "wf (measure (\<lambda>(s, sep). length s))" by simp
next
  fix s :: string and sep x21 x22
  assume "dropWhile (\<lambda>c. c \<noteq> sep) s = x21 # x22"
  then have "length (dropWhile (\<lambda>c. c \<noteq> sep) s) = Suc (length x22)" by simp
  moreover have "length (dropWhile (\<lambda>c. c \<noteq> sep) s) \<le> length s" by (rule length_dropWhile_le)
  ultimately show "((x22, sep), (s, sep)) \<in> measure (\<lambda>(s, sep). length s)" by simp
qed

declare Split.simps [simp del]

text \<open>\<^verbatim>\<open>replacer = strings.NewReplacer("\n", "")\<close>: \<^verbatim>\<open>replacer.Replace\<close> deletes every newline.\<close>

definition Replace :: "string \<Rightarrow> string" where
  "Replace s = filter (\<lambda>c. c \<noteq> NL) s"

text \<open>\<^verbatim>\<open>os.ReadFile\<close>: the whole content, or the error of opening or reading.\<close>

definition ReadFile :: "filesystem \<Rightarrow> string \<Rightarrow> os_error + string" where
  "ReadFile fs name =
     (case fs name of
        Inl err \<Rightarrow> Inl err
      | Inr f \<Rightarrow> (case read_err f of Some err \<Rightarrow> Inl err | None \<Rightarrow> Inr (content f)))"

text \<open>
  What \<^verbatim>\<open>getContainerID\<close> works on: the file system, the state \<open>cid\<close> behind the
  package \<^verbatim>\<open>containerid\<close> (its source is not part of the repository as given, so
  \<^verbatim>\<open>containerid.Get\<close> is a parameter, a provider on that state), and \<open>cid_calls\<close>, a
  ghost counter of the calls of \<^verbatim>\<open>containerid.Get\<close>.
\<close>

record 'w env =
  filesys :: filesystem
  cid :: 'w
  cid_calls :: nat

text \<open>
  \<^verbatim>\<open>getContainerID\<close>. The index \<^verbatim>\<open>len(cpusetSplit)-1\<close> is in range, \<^verbatim>\<open>Split\<close> never
  returning an empty slice, so the element read is the last one.
\<close>

definition getContainerID :: "'w provider \<Rightarrow> 'w env \<Rightarrow> (string \<times> error option) \<times> 'w env" where
  "getContainerID containerid_Get e =
     (case ReadFile (filesys e) ''/proc/self/cpuset'' of
        Inl err \<Rightarrow> (([], Some (OS err)), e)
      | Inr cpuset \<Rightarrow>
          if TrimSpace cpuset \<noteq> ''/'' then
            (let cpusetSplit = Split cpuset CHR ''/''
             in ((Replace (cpusetSplit ! (length cpusetSplit - 1)), None), e))
          else
            (case containerid_Get (cid e) of
               ((ident, err), w) \<Rightarrow>
                 (let e1 = e\<lparr>cid := w, cid_calls := cid_calls e + 1\<rparr>
                  in if ident = [] then (([], Some ErrContainerIDNotFound), e1)
                     else ((ident, None), e1))))"

section \<open>Vocabulary of the statements\<close>

text \<open>
  The lines of a text, as the claims speak of them: the pieces between newlines, a last
  piece without a newline included when it is not empty. A carriage return stays part of
  its line.
\<close>

function file_lines :: "string \<Rightarrow> string list" where
  "file_lines data =
     (if data = [] then []
      else takeWhile (\<lambda>c. c \<noteq> NL) data #
           file_lines (drop (length (takeWhile (\<lambda>c. c \<noteq> NL) data) + 1) data))"
  by pat_completeness auto
termination
  by (relation "measure length") auto

declare file_lines.simps [simp del]

text \<open>
  A pod identifier as the specification describes it: five groups of 8, 4, 4, 4 and 12
  lowercase hexadecimal digits, separated by hyphens.
\<close>

definition hex_group :: "nat \<Rightarrow> string \<Rightarrow> bool" where
  "hex_group n g = (length g = n \<and> list_all (\<lambda>c. c \<in> set ''0123456789abcdef'') g)"

definition is_uuid :: "string \<Rightarrow> bool" where
  "is_uuid u =
     (length u = 36 \<and>
      hex_group 8 (take 8 u) \<and> u ! 8 = CHR ''-'' \<and>
      hex_group 4 (take 4 (drop 9 u)) \<and> u ! 13 = CHR ''-'' \<and>
      hex_group 4 (take 4 (drop 14 u)) \<and> u ! 18 = CHR ''-'' \<and>
      hex_group 4 (take 4 (drop 19 u)) \<and> u ! 23 = CHR ''-'' \<and>
      hex_group 12 (drop 24 u))"

text \<open>Files of the tests, and a file system that holds one file.\<close>

definition single_file :: "string \<Rightarrow> os_file \<Rightarrow> filesystem" where
  "single_file name f p = (if p = name then Inr f else Inl (PathError ''no such file or directory''))"

definition mountinfo_no_pod :: os_file where
  "mountinfo_no_pod =
     \<lparr>content = ''15 29 0:40 / /var/lib/containers/abc rw - tmpfs tmpfs rw'' @ [NL],
      read_err = None\<rparr>"

definition mountinfo_one_pod :: os_file where
  "mountinfo_one_pod =
     \<lparr>content = ''29 37 0:25 / /var/lib/kubelet/pods/036da4f7-d553-4eb6-9802-90f81041a412/etc-hosts rw,relatime - tmpfs tmpfs rw'' @ [NL],
      read_err = None\<rparr>"

definition mountinfo_two_pods :: os_file where
  "mountinfo_two_pods =
     \<lparr>content =
        ''12582 11777 0:786 / / rw,relatime - overlay overlay rw'' @ [NL] @
        ''29 37 0:25 / /var/lib/kubelet/pods/036da4f7-d553-4eb6-9802-90f81041a412/volumes rw'' @ [NL] @
        ''30 37 0:25 / /var/lib/kubelet/pods/0f8fad5b-d9cb-469f-a165-70867728950e/etc-hosts rw'' @ [NL],
      read_err = Some (PathError ''input/output error'')\<rparr>"

definition mountinfo_long_first_line :: os_file where
  "mountinfo_long_first_line =
     \<lparr>content =
        replicate maxTokenSize CHR ''a'' @ [NL] @
        ''29 37 0:25 / /var/lib/kubelet/pods/036da4f7-d553-4eb6-9802-90f81041a412/etc-hosts rw'' @ [NL] @
        ''30 37 0:25 / /var/lib/kubelet/pods/036da4f7-d553-4eb6-9802-90f81041a412/etc-hosts rw'' @ [NL],
      read_err = None\<rparr>"

definition mountinfo_etc_hosts_second :: os_file where
  "mountinfo_etc_hosts_second =
     \<lparr>content =
        ''29 37 0:25 / /var/lib/kubelet/pods/036da4f7-d553-4eb6-9802-90f81041a412/volumes rw'' @ [NL] @
        ''30 37 0:25 / /var/lib/kubelet/pods/0f8fad5b-d9cb-469f-a165-70867728950e/etc-hosts rw'' @ [NL],
      read_err = None\<rparr>"

definition mountinfo_long_line :: os_file where
  "mountinfo_long_line =
     \<lparr>content =
        ''29 37 0:25 / /var/lib/kubelet/pods/0f8fad5b-d9cb-469f-a165-70867728950e/etc-hosts'' @
        replicate (70 * 1024) CHR ''a'' @ '' rw,relatime - tmpfs tmpfs rw'' @ [NL],
      read_err = None\<rparr>"

text \<open>
  The last non-empty segment of a text split on \<open>/\<close>, as the specification describes the
  identifier of the cgroup-v1 case; there is none when every segment is empty.
\<close>

definition last_nonempty_segment :: "string \<Rightarrow> string option" where
  "last_nonempty_segment c =
     (case filter (\<lambda>seg. seg \<noteq> []) (Split c CHR ''/'') of
        [] \<Rightarrow> None
      | seg # segs \<Rightarrow> Some (last (seg # segs)))"

text \<open>An environment whose file \<^verbatim>\<open>/proc/self/cpuset\<close> has the given content.\<close>

definition cgroup_env :: "string \<Rightarrow> nat env" where
  "cgroup_env c =
     \<lparr>filesys = single_file ''/proc/self/cpuset'' \<lparr>content = c, read_err = None\<rparr>,
      cid = 0, cid_calls = 0\<rparr>"

section \<open>Properties of the memoizing resolver\<close>

lemma Get_hit: "hasID s \<Longrightarrow> Get p s = ((cachedID s, None), s)"
  by (simp add: Get_def)

lemma Get_miss_ok:
  "\<not> hasID s \<Longrightarrow> p (world s) = ((v, None), w) \<Longrightarrow>
   Get p s = ((v, None), s\<lparr>world := w, calls := calls s + 1, cachedID := v, hasID := True\<rparr>)"
  by (simp add: Get_def)

lemma Get_miss_err:
  "\<not> hasID s \<Longrightarrow> p (world s) = ((v, Some e), w) \<Longrightarrow>
   Get p s = (([], Some e), s\<lparr>world := w, calls := calls s + 1\<rparr>)"
  by (simp add: Get_def)

lemma Get_ok_cached:
  assumes "Get p s = ((v, None), s1)"
  shows "hasID s1 \<and> cachedID s1 = v"
proof (cases "hasID s")
  case True
  with assms show ?thesis by (auto simp: Get_def)
next
  case False
  with assms show ?thesis
    by (auto simp: Get_def Let_def split: prod.splits option.splits)
qed

lemma Gets_hit: "hasID s \<Longrightarrow> Gets ps s = (replicate (length ps) (cachedID s, None), s)"
  by (induction ps) (simp_all add: Get_hit)

lemma Gets_append:
  "Gets (ps @ qs) s =
     (fst (Gets ps s) @ fst (Gets qs (snd (Gets ps s))), snd (Gets qs (snd (Gets ps s))))"
  by (induction ps arbitrary: s) (simp_all split: prod.splits)

lemma Get_calls:
  "calls (snd (Get p s)) = (if hasID s then calls s else calls s + 1)"
  by (auto simp: Get_def Let_def split: prod.splits option.splits)

text \<open>
  C1. If a call of \<^verbatim>\<open>Get\<close> succeeds with \<open>v\<close>, then the next call, whatever the provider
  injected by then, returns \<open>v\<close> with no error and leaves the whole state as it is: the
  world and the invocation counter are untouched, so the provider is not run. When the
  first call started on a cold cache it invoked the provider once, so the two calls
  together invoke it exactly once.
\<close>

theorem Get_twice_invokes_provider_once:
  assumes "Get p s = ((v, None), s1)"
  shows "Get q s1 = ((v, None), s1) \<and>
         calls (snd (Get q s1)) = (if hasID s then calls s else calls s + 1)"
proof -
  from assms have c: "hasID s1 \<and> cachedID s1 = v" by (rule Get_ok_cached)
  then have hit: "Get q s1 = ((v, None), s1)" by (simp add: Get_hit)
  have "calls s1 = (if hasID s then calls s else calls s + 1)"
    using Get_calls [of p s] assms by simp
  with hit show ?thesis by simp
qed

theorem Get_twice_invokes_provider_once_witness:
  "Get (stub_fail_once ErrPodIDNotFound ''x'')
     \<lparr>cachedID = ''12345678-90ab-cdef-1234-567890abcdef'', hasID = True, world = 1, calls = 1\<rparr>
   = ((''12345678-90ab-cdef-1234-567890abcdef'', None),
      \<lparr>cachedID = ''12345678-90ab-cdef-1234-567890abcdef'', hasID = True, world = 1, calls = 1\<rparr>)
   \<and> calls (snd (Get (stub_fail_once ErrPodIDNotFound ''x'')
        \<lparr>cachedID = ''12345678-90ab-cdef-1234-567890abcdef'', hasID = True, world = 1, calls = 1\<rparr>))
     = 1"
proof -
  have h: "Get (stub_ok ''12345678-90ab-cdef-1234-567890abcdef'') (init_pkg 0)
     = ((''12345678-90ab-cdef-1234-567890abcdef'', None),
        \<lparr>cachedID = ''12345678-90ab-cdef-1234-567890abcdef'', hasID = True, world = 1, calls = 1\<rparr>)"
    by (simp add: Get_def init_pkg_def stub_ok_def)
  from Get_twice_invokes_provider_once [OF h, of "stub_fail_once ErrPodIDNotFound ''x''"]
  show ?thesis by (simp add: init_pkg_def)
qed

text \<open>
  C2. On a cold cache, when the provider returns an error \<open>e\<close> (with whatever string),
  \<^verbatim>\<open>Get\<close> returns the empty string and \<open>e\<close> itself, and the state differs from the one
  before only in the world the provider left and in the invocation counter:
  \<^verbatim>\<open>cachedID\<close> and \<^verbatim>\<open>hasID\<close> are as they were. The next call therefore invokes the
  provider again, and when that provider succeeds with \<open>v\<close> the call returns \<open>v\<close> and
  every later sequence of calls returns \<open>v\<close> each time without changing the state.
\<close>

theorem Get_failure_is_not_cached:
  assumes "\<not> hasID s" and "p (world s) = ((x, Some e), w)"
  shows "Get p s = (([], Some e), s\<lparr>world := w, calls := calls s + 1\<rparr>) \<and>
         cachedID (snd (Get p s)) = cachedID s \<and>
         hasID (snd (Get p s)) = hasID s \<and>
         calls (snd (Get q (snd (Get p s)))) = calls s + 2 \<and>
         (q w = ((v, None), w') \<longrightarrow>
            fst (Get q (snd (Get p s))) = (v, None) \<and>
            Gets rs (snd (Get q (snd (Get p s)))) =
              (replicate (length rs) (v, None), snd (Get q (snd (Get p s)))))"
proof -
  let ?s1 = "s\<lparr>world := w, calls := calls s + 1\<rparr>"
  have first: "Get p s = (([], Some e), ?s1)"
    using assms by (rule Get_miss_err)
  have cold: "\<not> hasID ?s1" using assms(1) by simp
  have again: "calls (snd (Get q ?s1)) = calls s + 2"
    using cold by (simp add: Get_calls)
  have later: "fst (Get q ?s1) = (v, None) \<and>
      Gets rs (snd (Get q ?s1)) = (replicate (length rs) (v, None), snd (Get q ?s1))"
    if ok: "q w = ((v, None), w')"
  proof -
    from ok have "q (world ?s1) = ((v, None), w')" by simp
    from Get_miss_ok [where s = "?s1" and p = q and v = v and w = w', OF cold this]
    have g: "Get q ?s1 =
        ((v, None), ?s1\<lparr>world := w', calls := calls ?s1 + 1, cachedID := v, hasID := True\<rparr>)" .
    then have "hasID (snd (Get q ?s1)) \<and> cachedID (snd (Get q ?s1)) = v" by simp
    then have "Gets rs (snd (Get q ?s1)) = (replicate (length rs) (v, None), snd (Get q ?s1))"
      using Gets_hit [of "snd (Get q ?s1)" rs] by simp
    with g show ?thesis by simp
  qed
  from first again later show ?thesis by simp
qed

theorem Get_failure_is_not_cached_witness:
  "Get (stub_fail_once ErrPodIDNotFound ''fedcba98-7654-3210-fedc-ba9876543210'') (init_pkg 0)
     = (([], Some ErrPodIDNotFound), \<lparr>cachedID = [], hasID = False, world = 1, calls = 1\<rparr>)
   \<and> fst (Get (stub_fail_once ErrPodIDNotFound ''fedcba98-7654-3210-fedc-ba9876543210'')
        \<lparr>cachedID = [], hasID = False, world = 1, calls = 1\<rparr>)
     = (''fedcba98-7654-3210-fedc-ba9876543210'', None)
   \<and> calls (snd (Get (stub_fail_once ErrPodIDNotFound ''fedcba98-7654-3210-fedc-ba9876543210'')
        \<lparr>cachedID = [], hasID = False, world = 1, calls = 1\<rparr>))
     = 2"
proof -
  have cold: "\<not> hasID (init_pkg (0::nat))" by (simp add: init_pkg_def)
  have fails: "stub_fail_once ErrPodIDNotFound ''fedcba98-7654-3210-fedc-ba9876543210''
      (world (init_pkg 0)) = (([], Some ErrPodIDNotFound), 1)"
    by (simp add: stub_fail_once_def init_pkg_def)
  have ok: "stub_fail_once ErrPodIDNotFound ''fedcba98-7654-3210-fedc-ba9876543210'' 1
      = ((''fedcba98-7654-3210-fedc-ba9876543210'', None), 2)"
    by (simp add: stub_fail_once_def)
  from Get_failure_is_not_cached
      [where s = "init_pkg 0"
         and p = "stub_fail_once ErrPodIDNotFound ''fedcba98-7654-3210-fedc-ba9876543210''"
         and x = "[]" and e = ErrPodIDNotFound and w = 1
         and q = "stub_fail_once ErrPodIDNotFound ''fedcba98-7654-3210-fedc-ba9876543210''"
         and v = "''fedcba98-7654-3210-fedc-ba9876543210''" and w' = 2 and rs = "[]",
       OF cold fails] ok
  show ?thesis by (simp add: init_pkg_def Get_def stub_fail_once_def)
qed

text \<open>
  C8. Once \<^verbatim>\<open>hasID\<close> is true after some sequence of calls, any further sequence of calls,
  with any providers, leaves the state as it is (so \<^verbatim>\<open>hasID\<close> stays true and
  \<^verbatim>\<open>cachedID\<close> keeps its value) and every one of those calls returns the cached value
  with no error.
\<close>

theorem cache_state_is_monotone:
  assumes "Gets ps s = (rs, s1)" and "hasID s1"
  shows "Gets (ps @ qs) s = (rs @ replicate (length qs) (cachedID s1, None), s1) \<and>
         hasID (snd (Gets (ps @ qs) s)) \<and>
         cachedID (snd (Gets (ps @ qs) s)) = cachedID s1"
proof -
  have "Gets qs s1 = (replicate (length qs) (cachedID s1, None), s1)"
    using assms(2) by (rule Gets_hit)
  with assms(1) have "Gets (ps @ qs) s = (rs @ replicate (length qs) (cachedID s1, None), s1)"
    by (simp add: Gets_append)
  with assms(2) show ?thesis by simp
qed

theorem cache_state_is_monotone_witness:
  "Gets ([stub_fail_once (New ''temporary failure'') ''abc'', stub_fail_once (New ''temporary failure'') ''abc'']
         @ [stub_ok ''other'', stub_fail_once ErrPodIDNotFound ''third''])
        (init_pkg 0)
   = ([([], Some (New ''temporary failure'')), (''abc'', None)] @ replicate 2 (''abc'', None),
      \<lparr>cachedID = ''abc'', hasID = True, world = 2, calls = 2\<rparr>)"
proof -
  have run: "Gets [stub_fail_once (New ''temporary failure'') ''abc'',
                   stub_fail_once (New ''temporary failure'') ''abc''] (init_pkg 0)
     = ([([], Some (New ''temporary failure'')), (''abc'', None)],
        \<lparr>cachedID = ''abc'', hasID = True, world = 2, calls = 2\<rparr>)"
    by (simp add: Get_def init_pkg_def stub_fail_once_def)
  have hot: "hasID \<lparr>cachedID = ''abc'', hasID = True, world = 2::nat, calls = 2\<rparr>" by simp
  from cache_state_is_monotone [OF run hot,
      of "[stub_ok ''other'', stub_fail_once ErrPodIDNotFound ''third'']"]
  show ?thesis by (simp add: numeral_2_eq_2)
qed

text \<open>
  C10. \<^verbatim>\<open>Get\<close> does not look at the string a provider returns with a nil error: whatever
  it is, the empty string included, the call on a cold cache stores it, sets
  \<^verbatim>\<open>hasID\<close> and returns it, and every later sequence of calls returns it again without
  changing the state, so without running a provider.
\<close>

theorem Get_caches_result_without_validation:
  assumes "\<not> hasID s" and "p (world s) = ((x, None), w)"
  shows "Get p s =
           ((x, None), s\<lparr>world := w, calls := calls s + 1, cachedID := x, hasID := True\<rparr>) \<and>
         Gets qs (snd (Get p s)) = (replicate (length qs) (x, None), snd (Get p s))"
proof -
  from assms have g: "Get p s =
      ((x, None), s\<lparr>world := w, calls := calls s + 1, cachedID := x, hasID := True\<rparr>)"
    by (rule Get_miss_ok)
  then have "hasID (snd (Get p s)) \<and> cachedID (snd (Get p s)) = x" by simp
  then have "Gets qs (snd (Get p s)) = (replicate (length qs) (x, None), snd (Get p s))"
    using Gets_hit [of "snd (Get p s)" qs] by simp
  with g show ?thesis by simp
qed

theorem Get_caches_result_without_validation_witness:
  "Get (stub_ok []) (init_pkg 0)
     = (([], None), \<lparr>cachedID = [], hasID = True, world = 1, calls = 1\<rparr>)
   \<and> Gets [stub_ok ''036da4f7-d553-4eb6-9802-90f81041a412'', stub_ok ''x'']
        \<lparr>cachedID = [], hasID = True, world = 1, calls = 1\<rparr>
     = ([([], None), ([], None)], \<lparr>cachedID = [], hasID = True, world = 1, calls = 1\<rparr>)"
proof -
  have cold: "\<not> hasID (init_pkg (0::nat))" by (simp add: init_pkg_def)
  have ok: "stub_ok [] (world (init_pkg 0)) = (([], None), 1)"
    by (simp add: stub_ok_def init_pkg_def)
  from Get_caches_result_without_validation
      [where s = "init_pkg 0" and p = "stub_ok []" and x = "[]" and w = 1
         and qs = "[stub_ok ''036da4f7-d553-4eb6-9802-90f81041a412'', stub_ok ''x'']",
       OF cold ok]
  show ?thesis by (simp add: init_pkg_def Get_def stub_ok_def)
qed

section \<open>Properties of the scanner\<close>

lemma buf_fits_iff: "cap \<le> m \<Longrightarrow> buf_fits n cap m \<longleftrightarrow> n < m"
proof (induction n cap m rule: buf_fits.induct)
  case (1 n cap maxTok)
  show ?case
  proof (cases "n < cap")
    case True
    with 1(2) show ?thesis by (subst buf_fits.simps) simp
  next
    case False
    show ?thesis
    proof (cases "cap \<ge> maxTok")
      case True
      with False 1(2) show ?thesis by (subst buf_fits.simps) simp
    next
      case c: False
      have "min (if cap * 2 = 0 then 4096 else cap * 2) maxTok \<le> maxTok" by simp
      from 1(1) [OF False c this] False c show ?thesis by (subst buf_fits.simps) simp
    qed
  qed
qed

lemma buf_fits_start: "buf_fits n startBufSize maxTokenSize \<longleftrightarrow> n < maxTokenSize"
  by (rule buf_fits_iff) (simp add: startBufSize_def maxTokenSize_def)

lemma Scan_Token:
  "data \<noteq> [] \<Longrightarrow> length (takeWhile (\<lambda>c. c \<noteq> NL) data) < maxTokenSize \<Longrightarrow>
   Scan data rerr =
     Token (dropCR (takeWhile (\<lambda>c. c \<noteq> NL) data))
           (drop (length (takeWhile (\<lambda>c. c \<noteq> NL) data) + 1) data)"
  by (simp add: Scan_def buf_fits_start Let_def)

lemma Scan_TooLong:
  assumes "maxTokenSize \<le> length (takeWhile (\<lambda>c. c \<noteq> NL) data)"
  shows "Scan data rerr = Stop (Some ErrTooLong)"
proof -
  have "0 < maxTokenSize" by (simp add: maxTokenSize_def)
  with assms have "data \<noteq> []" by auto
  with assms show ?thesis by (simp add: Scan_def buf_fits_start Let_def)
qed

lemma Scan_Nil: "Scan [] rerr = Stop (map_option OS rerr)"
  by (simp add: Scan_def)

lemma match_here_append:
  "match_here (ps @ qs) s \<longleftrightarrow>
     length ps \<le> length s \<and> match_here ps (take (length ps) s) \<and> match_here qs (drop (length ps) s)"
  by (induction ps s rule: match_here.induct) auto

lemma match_here_length: "match_here ps s \<Longrightarrow> length ps \<le> length s"
  by (induction ps s rule: match_here.induct) auto

lemma match_here_CR:
  "\<forall>p\<in>set re. \<not> accepts p CR \<Longrightarrow> match_here re (s @ [CR]) = match_here re s"
  by (induction re s rule: match_here.induct) auto

lemma leftmost_CR:
  assumes "re \<noteq> []" and "\<forall>p\<in>set re. \<not> accepts p CR"
  shows "leftmost re (s @ [CR]) = map_option (\<lambda>t. t @ [CR]) (leftmost re s)"
proof (induction s)
  case Nil
  from assms obtain p ps where re: "re = p # ps" by (cases re) auto
  with assms(2) have "\<not> accepts p CR" by simp
  with re show ?case by simp
next
  case (Cons c cs)
  have "match_here re ((c # cs) @ [CR]) = match_here re (c # cs)"
    using assms(2) by (rule match_here_CR)
  with Cons show ?case by simp
qed

lemma leftmost_match: "leftmost re s = Some t \<Longrightarrow> match_here re t"
  by (induction s) (auto split: if_splits)

lemma podIDRegex_length: "length podIDRegex = 43" "length regex_group = 36" "length regex_before = 6"
  by (simp_all add: podIDRegex_def regex_before_def regex_group_def regex_after_def)

lemma podIDRegex_no_CR: "\<forall>p\<in>set podIDRegex. \<not> accepts p CR"
  by (auto simp: podIDRegex_def regex_before_def regex_group_def regex_after_def CR_def)

lemma podIDRegex_nonempty: "podIDRegex \<noteq> []"
  using podIDRegex_length(1) by auto

lemma FindStringSubmatch_CR: "FindStringSubmatch (s @ [CR]) = FindStringSubmatch s"
proof (cases "leftmost podIDRegex s")
  case None
  then show ?thesis
    by (simp add: FindStringSubmatch_def leftmost_CR [OF podIDRegex_nonempty podIDRegex_no_CR])
next
  case (Some t)
  then have "match_here podIDRegex t" by (rule leftmost_match)
  then have "43 \<le> length t" using match_here_length [of podIDRegex t] by (simp add: podIDRegex_length)
  with Some show ?thesis
    by (simp add: FindStringSubmatch_def leftmost_CR [OF podIDRegex_nonempty podIDRegex_no_CR]
        podIDRegex_length)
qed

lemma FindStringSubmatch_dropCR: "FindStringSubmatch (dropCR l) = FindStringSubmatch l"
proof (cases "l \<noteq> [] \<and> last l = CR")
  case True
  then have "l = butlast l @ [CR]" by (metis append_butlast_last_id)
  then have "FindStringSubmatch l = FindStringSubmatch (butlast l)"
    using FindStringSubmatch_CR [of "butlast l"] by simp
  with True show ?thesis by (simp add: dropCR_def)
next
  case False
  then show ?thesis by (auto simp: dropCR_def)
qed

lemma FindStringSubmatch_cases:
  "FindStringSubmatch l = [] \<or> length (FindStringSubmatch l) = 2"
  by (simp add: FindStringSubmatch_def split: option.splits)

lemma scan_loop_step:
  assumes "data \<noteq> []" and "length (takeWhile (\<lambda>c. c \<noteq> NL) data) < maxTokenSize"
  shows "scan_loop path data rerr =
     (if length (FindStringSubmatch (takeWhile (\<lambda>c. c \<noteq> NL) data)) = 2
      then (FindStringSubmatch (takeWhile (\<lambda>c. c \<noteq> NL) data) ! 1, None)
      else scan_loop path (drop (length (takeWhile (\<lambda>c. c \<noteq> NL) data) + 1) data) rerr)"
  by (subst scan_loop.simps) (simp add: Scan_Token [OF assms] FindStringSubmatch_dropCR Let_def)

lemma scan_loop_Nil:
  "scan_loop path [] rerr =
     (case rerr of
        None \<Rightarrow> ([], Some ErrPodIDNotFound)
      | Some e \<Rightarrow> ([], Some (Errorf (''error reading '' @ path @ '': '') (OS e))))"
  by (subst scan_loop.simps) (simp add: Scan_Nil split: option.splits)

lemma scan_loop_TooLong:
  assumes "maxTokenSize \<le> length (takeWhile (\<lambda>c. c \<noteq> NL) data)"
  shows "scan_loop path data rerr = ([], Some (Errorf (''error reading '' @ path @ '': '') ErrTooLong))"
  by (subst scan_loop.simps) (simp add: Scan_TooLong [OF assms])

lemma file_lines_Nil: "file_lines [] = []"
  by (subst file_lines.simps) simp

lemma file_lines_Cons:
  assumes "file_lines data = l # ls"
  shows "data \<noteq> [] \<and> l = takeWhile (\<lambda>c. c \<noteq> NL) data \<and> ls = file_lines (drop (length l + 1) data)"
proof -
  from assms have ne: "data \<noteq> []" by (cases "data = []") (simp_all add: file_lines_Nil)
  then have "file_lines data = takeWhile (\<lambda>c. c \<noteq> NL) data #
           file_lines (drop (length (takeWhile (\<lambda>c. c \<noteq> NL) data) + 1) data)"
    by (subst file_lines.simps) simp
  with assms ne show ?thesis by auto
qed

lemma scan_loop_first_match:
  assumes "file_lines data = before @ line # after"
    and "\<forall>l\<in>set before. length l < maxTokenSize \<and> FindStringSubmatch l = []"
    and "length line < maxTokenSize"
    and "FindStringSubmatch line = [m, u]"
  shows "scan_loop path data rerr = (u, None)"
  using assms(1,2)
proof (induction before arbitrary: data)
  case Nil
  then have "file_lines data = line # after" by simp
  from file_lines_Cons [OF this]
  have d: "data \<noteq> []" and l: "line = takeWhile (\<lambda>c. c \<noteq> NL) data" by simp_all
  from assms(3) l have "length (takeWhile (\<lambda>c. c \<noteq> NL) data) < maxTokenSize" by simp
  from scan_loop_step [OF d this] assms(4) l show ?case by simp
next
  case (Cons b bs)
  then have "file_lines data = b # (bs @ line # after)" by simp
  from file_lines_Cons [OF this]
  have d: "data \<noteq> []" and l: "b = takeWhile (\<lambda>c. c \<noteq> NL) data"
    and r: "bs @ line # after = file_lines (drop (length b + 1) data)" by simp_all
  from Cons.prems(2) have b: "length b < maxTokenSize" "FindStringSubmatch b = []"
    and bs: "\<forall>l\<in>set bs. length l < maxTokenSize \<and> FindStringSubmatch l = []" by simp_all
  from b(1) l have "length (takeWhile (\<lambda>c. c \<noteq> NL) data) < maxTokenSize" by simp
  from scan_loop_step [OF d this] b(2) l
  have "scan_loop path data rerr = scan_loop path (drop (length b + 1) data) rerr" by simp
  also have "\<dots> = (u, None)" using Cons.IH [OF r [symmetric] bs] .
  finally show ?case .
qed

lemma file_lines_eq_Nil: "file_lines data = [] \<longleftrightarrow> data = []"
  by (subst file_lines.simps) simp

lemma scan_loop_skip:
  assumes "file_lines data = before @ rest"
    and "\<forall>l\<in>set before. length l < maxTokenSize \<and> FindStringSubmatch l = []"
  shows "\<exists>data'. file_lines data' = rest \<and> scan_loop path data rerr = scan_loop path data' rerr"
  using assms
proof (induction before arbitrary: data)
  case Nil
  then show ?case by auto
next
  case (Cons b bs)
  then have "file_lines data = b # (bs @ rest)" by simp
  from file_lines_Cons [OF this]
  have d: "data \<noteq> []" and l: "b = takeWhile (\<lambda>c. c \<noteq> NL) data"
    and r: "bs @ rest = file_lines (drop (length b + 1) data)" by simp_all
  from Cons.prems(2) have b: "length b < maxTokenSize" "FindStringSubmatch b = []"
    and bs: "\<forall>l\<in>set bs. length l < maxTokenSize \<and> FindStringSubmatch l = []" by simp_all
  from b(1) l have "length (takeWhile (\<lambda>c. c \<noteq> NL) data) < maxTokenSize" by simp
  from scan_loop_step [OF d this] b(2) l
  have "scan_loop path data rerr = scan_loop path (drop (length b + 1) data) rerr" by simp
  with Cons.IH [OF r [symmetric] bs] show ?case by simp
qed

lemma scan_loop_no_match:
  assumes "\<forall>l\<in>set (file_lines data). length l < maxTokenSize \<and> FindStringSubmatch l = []"
  shows "scan_loop path data rerr =
     (case rerr of
        None \<Rightarrow> ([], Some ErrPodIDNotFound)
      | Some e \<Rightarrow> ([], Some (Errorf (''error reading '' @ path @ '': '') (OS e))))"
proof -
  have "file_lines data = file_lines data @ []" by simp
  from scan_loop_skip [OF this assms]
  obtain data' where "file_lines data' = []"
    and "scan_loop path data rerr = scan_loop path data' rerr" by blast
  then show ?thesis by (simp add: file_lines_eq_Nil scan_loop_Nil)
qed

lemma scan_loop_blocked:
  assumes "file_lines data = before @ line # after"
    and "\<forall>l\<in>set before. length l < maxTokenSize \<and> FindStringSubmatch l = []"
    and "maxTokenSize \<le> length line"
  shows "scan_loop path data rerr =
     ([], Some (Errorf (''error reading '' @ path @ '': '') ErrTooLong))"
proof -
  from scan_loop_skip [OF assms(1,2)]
  obtain data' where d: "file_lines data' = line # after"
    and s: "scan_loop path data rerr = scan_loop path data' rerr" by blast
  from file_lines_Cons [OF d] assms(3)
  have "maxTokenSize \<le> length (takeWhile (\<lambda>c. c \<noteq> NL) data')" by simp
  from scan_loop_TooLong [OF this] s show ?thesis by simp
qed

lemma scan_loop_error_shape:
  "scan_loop path data rerr = (x, Some e) \<Longrightarrow>
   x = [] \<and>
   (e = ErrPodIDNotFound \<and> rerr = None \<or>
    e = Errorf (''error reading '' @ path @ '': '') ErrTooLong \<or>
    (\<exists>oe. rerr = Some oe \<and> e = Errorf (''error reading '' @ path @ '': '') (OS oe)))"
proof (induction path data rerr rule: scan_loop.induct)
  case (1 path data rerr)
  show ?case
  proof (cases "Scan data rerr")
    case (Token line rest)
    show ?thesis
    proof (cases "length (FindStringSubmatch line) = 2")
      case True
      with Token 1(2) show ?thesis by (subst (asm) scan_loop.simps) simp
    next
      case False
      with Token 1(2) have "scan_loop path rest rerr = (x, Some e)"
        by (subst (asm) scan_loop.simps) simp
      from 1(1) [OF Token refl False this] show ?thesis .
    qed
  next
    case (Stop err)
    then have "err = Some ErrTooLong \<or> err = map_option OS rerr"
      by (auto simp: Scan_def Let_def split: if_splits)
    with Stop 1(2) show ?thesis
      by (subst (asm) scan_loop.simps) (cases rerr; auto split: option.splits)
  qed
qed

lemma leftmost_first:
  assumes "match_here re t" and "\<forall>i<length pre. \<not> match_here re (drop i (pre @ t))"
  shows "leftmost re (pre @ t) = Some t"
  using assms(2)
proof (induction pre)
  case Nil
  from assms(1) show ?case by (cases t) simp_all
next
  case (Cons c pre)
  from Cons.prems have "\<not> match_here re (drop 0 ((c # pre) @ t))" by blast
  then have nm: "\<not> match_here re (c # pre @ t)" by simp
  have "\<forall>i<length pre. \<not> match_here re (drop i (pre @ t))"
  proof (intro allI impI)
    fix i assume "i < length pre"
    then have "Suc i < length (c # pre)" by simp
    with Cons.prems have "\<not> match_here re (drop (Suc i) ((c # pre) @ t))" by blast
    then show "\<not> match_here re (drop i (pre @ t))" by simp
  qed
  from Cons.IH [OF this] nm show ?case by simp
qed

lemma leftmost_SomeD:
  "leftmost re s = Some t \<Longrightarrow>
   \<exists>pre. s = pre @ t \<and> match_here re t \<and> (\<forall>i<length pre. \<not> match_here re (drop i s))"
proof (induction s)
  case Nil
  then show ?case by (auto split: if_splits)
next
  case (Cons c cs)
  show ?case
  proof (cases "match_here re (c # cs)")
    case True
    with Cons.prems have "t = c # cs" by simp
    with True show ?thesis by auto
  next
    case False
    with Cons.prems have "leftmost re cs = Some t" by simp
    from Cons.IH [OF this] obtain pre where p: "cs = pre @ t" "match_here re t"
      "\<forall>i<length pre. \<not> match_here re (drop i cs)" by blast
    have "\<forall>i<length (c # pre). \<not> match_here re (drop i (c # cs))"
    proof (intro allI impI)
      fix i assume i: "i < length (c # pre)"
      show "\<not> match_here re (drop i (c # cs))"
      proof (cases i)
        case 0
        with False show ?thesis by simp
      next
        case (Suc j)
        with i p(3) show ?thesis by simp
      qed
    qed
    with p(1,2) have "c # cs = (c # pre) @ t \<and> match_here re t \<and>
        (\<forall>i<length (c # pre). \<not> match_here re (drop i (c # cs)))" by simp
    then show ?thesis by blast
  qed
qed

lemma match_here_Lits: "match_here (map Lit a) s \<longleftrightarrow> take (length a) s = a \<and> length a \<le> length s"
proof (induction a arbitrary: s)
  case Nil
  then show ?case by simp
next
  case (Cons c a)
  then show ?case by (cases s) auto
qed

lemma match_here_hex:
  "match_here (replicate n LowerHex) s \<longleftrightarrow> n \<le> length s \<and> hex_group n (take n s)"
proof (induction n arbitrary: s)
  case 0
  then show ?case by (simp add: hex_group_def)
next
  case (Suc n)
  then show ?case by (cases s) (auto simp: hex_group_def)
qed

lemma match_here_Lit1:
  "match_here (Lit c # ps) s \<longleftrightarrow> s \<noteq> [] \<and> hd s = c \<and> match_here ps (drop 1 s)"
  by (cases s) auto

lemma match_group_iff: "match_here regex_group s \<longleftrightarrow> 36 \<le> length s \<and> is_uuid (take 36 s)"
  unfolding regex_group_def is_uuid_def
  by (auto simp: match_here_append match_here_hex match_here_Lit1 hd_drop_conv_nth drop_take)

lemma match_before_iff: "match_here regex_before s \<longleftrightarrow> take 6 s = ''/pods/'' \<and> 6 \<le> length s"
  using match_here_Lits [of "''/pods/''" s] by (simp add: regex_before_def eval_nat_numeral)

lemma match_podIDRegex_iff:
  "match_here podIDRegex t \<longleftrightarrow> (\<exists>u r. t = ''/pods/'' @ u @ CHR ''/'' # r \<and> is_uuid u)"
proof
  assume m: "match_here podIDRegex t"
  then have len: "43 \<le> length t"
    using match_here_length [of podIDRegex t] by (simp add: podIDRegex_length)
  from m have "match_here regex_before (take (length regex_before) t)"
    and b: "match_here (regex_group @ regex_after) (drop (length regex_before) t)"
    unfolding podIDRegex_def match_here_append [of regex_before] by blast+
  then have a: "take 6 t = ''/pods/''"
    by (simp add: match_before_iff podIDRegex_length)
  from b have "match_here regex_group (take (length regex_group) (drop (length regex_before) t))"
    and "match_here regex_after (drop (length regex_group) (drop (length regex_before) t))"
    unfolding match_here_append [of regex_group] by blast+
  then have u: "is_uuid (take 36 (drop 6 t))" and c: "hd (drop 42 t) = CHR ''/''"
    using len
    by (simp_all add: podIDRegex_length match_group_iff regex_after_def match_here_Lit1)
  have "t = take 6 t @ drop 6 t" by simp
  also have "drop 6 t = take 36 (drop 6 t) @ drop 42 t"
    using append_take_drop_id [of 36 "drop 6 t"] by simp
  also have "drop 42 t = hd (drop 42 t) # drop 43 t"
    using len Cons_nth_drop_Suc [of 42 t] by (simp add: hd_drop_conv_nth)
  finally have "t = ''/pods/'' @ take 36 (drop 6 t) @ CHR ''/'' # drop 43 t"
    using a c by simp
  with u show "\<exists>u r. t = ''/pods/'' @ u @ CHR ''/'' # r \<and> is_uuid u" by blast
next
  assume "\<exists>u r. t = ''/pods/'' @ u @ CHR ''/'' # r \<and> is_uuid u"
  then obtain u r where t: "t = ''/pods/'' @ u @ CHR ''/'' # r" and u: "is_uuid u" by blast
  from u have l: "length u = 36" by (simp add: is_uuid_def)
  have "match_here regex_before (take 6 t)"
    using t by (simp add: match_before_iff)
  moreover have "match_here regex_group (take 36 (drop 6 t))"
    using t u l by (simp add: match_group_iff)
  moreover have "match_here regex_after (drop 42 t)"
    using t l by (simp add: regex_after_def)
  ultimately show "match_here podIDRegex t"
    using t l unfolding podIDRegex_def
    by (simp add: match_here_append podIDRegex_length)
qed

lemma leftmost_None_iff: "leftmost re s = None \<longleftrightarrow> (\<forall>i\<le>length s. \<not> match_here re (drop i s))"
proof (induction s)
  case Nil
  then show ?case by simp
next
  case (Cons c cs)
  show ?case
  proof
    assume n: "leftmost re (c # cs) = None"
    then have nm: "\<not> match_here re (c # cs)" and "leftmost re cs = None"
      by (auto split: if_splits)
    with Cons have r: "\<forall>i\<le>length cs. \<not> match_here re (drop i cs)" by simp
    show "\<forall>i\<le>length (c # cs). \<not> match_here re (drop i (c # cs))"
    proof (intro allI impI)
      fix i assume "i \<le> length (c # cs)"
      with nm r show "\<not> match_here re (drop i (c # cs))" by (cases i) simp_all
    qed
  next
    assume a: "\<forall>i\<le>length (c # cs). \<not> match_here re (drop i (c # cs))"
    then have "\<not> match_here re (drop 0 (c # cs))" by blast
    then have nm: "\<not> match_here re (c # cs)" by simp
    have "\<forall>i\<le>length cs. \<not> match_here re (drop i cs)"
    proof (intro allI impI)
      fix i assume "i \<le> length cs"
      then have "Suc i \<le> length (c # cs)" by simp
      with a have "\<not> match_here re (drop (Suc i) (c # cs))" by blast
      then show "\<not> match_here re (drop i cs)" by simp
    qed
    with Cons nm show "leftmost re (c # cs) = None" by simp
  qed
qed

lemma FindStringSubmatch_Nil_iff:
  "FindStringSubmatch l = [] \<longleftrightarrow> leftmost podIDRegex l = None"
  by (simp add: FindStringSubmatch_def split: option.splits)

lemma FindStringSubmatch_of_leftmost:
  assumes "leftmost podIDRegex l = Some (''/pods/'' @ u @ CHR ''/'' # r)" and "is_uuid u"
  shows "FindStringSubmatch l = [''/pods/'' @ u @ ''/'', u]"
proof -
  from assms(2) have "length u = 36" by (simp add: is_uuid_def)
  with assms(1) show ?thesis by (simp add: FindStringSubmatch_def podIDRegex_length)
qed

lemma FindStringSubmatch_first:
  assumes "is_uuid u"
    and "\<forall>i<length pre. \<not> match_here podIDRegex (drop i (pre @ ''/pods/'' @ u @ CHR ''/'' # post))"
  shows "FindStringSubmatch (pre @ ''/pods/'' @ u @ CHR ''/'' # post) = [''/pods/'' @ u @ ''/'', u]"
proof -
  have "match_here podIDRegex (''/pods/'' @ u @ CHR ''/'' # post)"
    using assms(1) match_podIDRegex_iff by blast
  from leftmost_first [OF this assms(2)] assms(1) show ?thesis
    by (rule FindStringSubmatch_of_leftmost)
qed

lemma FindStringSubmatch_matchD:
  assumes "FindStringSubmatch l \<noteq> []"
  shows "\<exists>pre u post. l = pre @ ''/pods/'' @ u @ CHR ''/'' # post \<and> is_uuid u \<and>
           (\<forall>i<length pre. \<not> match_here podIDRegex (drop i l)) \<and>
           FindStringSubmatch l = [''/pods/'' @ u @ ''/'', u]"
proof -
  from assms obtain t where t: "leftmost podIDRegex l = Some t"
    by (auto simp: FindStringSubmatch_def split: option.splits)
  from leftmost_SomeD [OF this] obtain pre where p: "l = pre @ t" "match_here podIDRegex t"
    "\<forall>i<length pre. \<not> match_here podIDRegex (drop i l)" by blast
  from p(2) obtain u r where u: "t = ''/pods/'' @ u @ CHR ''/'' # r" "is_uuid u"
    using match_podIDRegex_iff by blast
  from t u have "FindStringSubmatch l = [''/pods/'' @ u @ ''/'', u]"
    by (simp add: FindStringSubmatch_of_leftmost)
  with p u show ?thesis by blast
qed

lemma FindStringSubmatch_contains:
  assumes "is_uuid u"
  shows "FindStringSubmatch (pre @ ''/pods/'' @ u @ CHR ''/'' # post) \<noteq> []"
proof -
  let ?l = "pre @ ''/pods/'' @ u @ CHR ''/'' # post"
  have "match_here podIDRegex (''/pods/'' @ u @ CHR ''/'' # post)"
    using assms match_podIDRegex_iff by blast
  then have "match_here podIDRegex (drop (length pre) ?l)" by simp
  moreover have "length pre \<le> length ?l" by simp
  ultimately have "leftmost podIDRegex ?l \<noteq> None"
    using leftmost_None_iff [of podIDRegex ?l] by blast
  then show ?thesis by (simp add: FindStringSubmatch_Nil_iff)
qed

lemma is_uuid_groups:
  assumes "is_uuid u"
  shows "\<exists>a b c d e. u = a @ ''-'' @ b @ ''-'' @ c @ ''-'' @ d @ ''-'' @ e \<and>
           hex_group 8 a \<and> hex_group 4 b \<and> hex_group 4 c \<and> hex_group 4 d \<and> hex_group 12 e"
proof -
  from assms have len: "length u = 36" by (simp add: is_uuid_def)
  have "u = take 8 u @ drop 8 u" by simp
  also have "drop 8 u = u ! 8 # drop 9 u" using len Cons_nth_drop_Suc [of 8 u] by simp
  also have "drop 9 u = take 4 (drop 9 u) @ drop 13 u"
    using append_take_drop_id [of 4 "drop 9 u"] by simp
  also have "drop 13 u = u ! 13 # drop 14 u" using len Cons_nth_drop_Suc [of 13 u] by simp
  also have "drop 14 u = take 4 (drop 14 u) @ drop 18 u"
    using append_take_drop_id [of 4 "drop 14 u"] by simp
  also have "drop 18 u = u ! 18 # drop 19 u" using len Cons_nth_drop_Suc [of 18 u] by simp
  also have "drop 19 u = take 4 (drop 19 u) @ drop 23 u"
    using append_take_drop_id [of 4 "drop 19 u"] by simp
  also have "drop 23 u = u ! 23 # drop 24 u" using len Cons_nth_drop_Suc [of 23 u] by simp
  finally have eq: "u = take 8 u @ ''-'' @ take 4 (drop 9 u) @ ''-'' @ take 4 (drop 14 u) @ ''-'' @
      take 4 (drop 19 u) @ ''-'' @ drop 24 u"
    using assms by (simp add: is_uuid_def)
  show ?thesis
  proof (intro exI conjI)
    show "u = take 8 u @ ''-'' @ take 4 (drop 9 u) @ ''-'' @ take 4 (drop 14 u) @ ''-'' @
      take 4 (drop 19 u) @ ''-'' @ drop 24 u" by (rule eq)
    show "hex_group 8 (take 8 u)" "hex_group 4 (take 4 (drop 9 u))"
      "hex_group 4 (take 4 (drop 14 u))" "hex_group 4 (take 4 (drop 19 u))"
      "hex_group 12 (drop 24 u)"
      using assms by (simp_all add: is_uuid_def)
  qed
qed

lemma hex_group_no_slash: "hex_group n g \<Longrightarrow> CHR ''/'' \<notin> set g"
  unfolding hex_group_def list_all_iff by fastforce

lemma is_uuid_no_slash:
  assumes "is_uuid u"
  shows "CHR ''/'' \<notin> set u"
proof -
  from is_uuid_groups [OF assms] obtain a b c d e where
    u: "u = a @ ''-'' @ b @ ''-'' @ c @ ''-'' @ d @ ''-'' @ e"
    and g: "hex_group 8 a" "hex_group 4 b" "hex_group 4 c" "hex_group 4 d" "hex_group 12 e"
    by blast
  from g have "CHR ''/'' \<notin> set a" "CHR ''/'' \<notin> set b" "CHR ''/'' \<notin> set c"
      "CHR ''/'' \<notin> set d" "CHR ''/'' \<notin> set e"
    by (simp_all add: hex_group_no_slash)
  then show ?thesis unfolding u by simp
qed

lemma file_lines_line:
  assumes "NL \<notin> set l"
  shows "file_lines (l @ NL # rest) = l # file_lines rest"
proof -
  have "takeWhile (\<lambda>c. c \<noteq> NL) (l @ NL # rest) = l"
    using assms by (auto simp: takeWhile_tail)
  then show ?thesis by (subst file_lines.simps) simp
qed

lemma file_lines_last:
  assumes "NL \<notin> set l" and "l \<noteq> []"
  shows "file_lines l = [l]"
proof -
  have tw: "takeWhile (\<lambda>c. c \<noteq> NL) l = l" using assms(1) by (auto simp: takeWhile_eq_all_conv)
  have "file_lines l =
     (if l = [] then []
      else takeWhile (\<lambda>c. c \<noteq> NL) l #
           file_lines (drop (length (takeWhile (\<lambda>c. c \<noteq> NL) l) + 1) l))"
    by (rule file_lines.simps)
  then show ?thesis unfolding tw using assms(2) by (simp add: file_lines_Nil)
qed

lemma GetFromFile_open_error:
  "fs path = Inl err \<Longrightarrow>
   GetFromFile fs path = ([], Some (Errorf (''failed to open '' @ path @ '': '') (OS err)))"
  by (simp add: GetFromFile_def)

lemma GetFromFile_Is_not_found:
  assumes "GetFromFile fs path = (x, Some e)" and "errors_Is e ErrPodIDNotFound"
  shows "e = ErrPodIDNotFound \<and> (\<exists>f. fs path = Inr f \<and> read_err f = None)"
proof (cases "fs path")
  case (Inl err)
  with assms show ?thesis by (auto simp: GetFromFile_def)
next
  case (Inr f)
  with assms(1) have "scan_loop path (content f) (read_err f) = (x, Some e)"
    by (simp add: GetFromFile_def)
  from scan_loop_error_shape [OF this] assms(2) Inr show ?thesis by auto
qed

text \<open>
  C6. When the file opens, its reads end without error, every line is short enough for
  the scanner (so the scan reaches the end of the file) and no line matches the pod
  pattern, \<^verbatim>\<open>GetFromFile\<close> returns the empty string and \<^verbatim>\<open>ErrPodIDNotFound\<close> itself, which
  \<^verbatim>\<open>errors.Is\<close> recognises. No failure to open or to read is taken for it: whenever
  \<^verbatim>\<open>GetFromFile\<close> returns an error that \<^verbatim>\<open>errors.Is\<close> identifies with
  \<^verbatim>\<open>ErrPodIDNotFound\<close>, the file did open and its reads ended without error.
\<close>

theorem GetFromFile_not_found:
  assumes "fs path = Inr f" and "read_err f = None"
    and "\<forall>l\<in>set (file_lines (content f)). length l < maxTokenSize \<and> FindStringSubmatch l = []"
  shows "GetFromFile fs path = ([], Some ErrPodIDNotFound) \<and>
         errors_Is ErrPodIDNotFound ErrPodIDNotFound \<and>
         (\<forall>fs' x e. GetFromFile fs' path = (x, Some e) \<and> errors_Is e ErrPodIDNotFound \<longrightarrow>
            e = ErrPodIDNotFound \<and> (\<exists>f'. fs' path = Inr f' \<and> read_err f' = None))"
proof -
  from scan_loop_no_match [OF assms(3), of path "read_err f"] assms(1,2)
  have "GetFromFile fs path = ([], Some ErrPodIDNotFound)"
    by (simp add: GetFromFile_def)
  moreover have "\<forall>fs' x e. GetFromFile fs' path = (x, Some e) \<and> errors_Is e ErrPodIDNotFound \<longrightarrow>
            e = ErrPodIDNotFound \<and> (\<exists>f'. fs' path = Inr f' \<and> read_err f' = None)"
    using GetFromFile_Is_not_found by blast
  ultimately show ?thesis by simp
qed

lemma podIDRegex_unfold:
  "podIDRegex =
     [Lit CHR ''/'', Lit CHR ''p'', Lit CHR ''o'', Lit CHR ''d'', Lit CHR ''s'', Lit CHR ''/'',
      LowerHex, LowerHex, LowerHex, LowerHex, LowerHex, LowerHex, LowerHex, LowerHex, Lit CHR ''-'',
      LowerHex, LowerHex, LowerHex, LowerHex, Lit CHR ''-'',
      LowerHex, LowerHex, LowerHex, LowerHex, Lit CHR ''-'',
      LowerHex, LowerHex, LowerHex, LowerHex, Lit CHR ''-'',
      LowerHex, LowerHex, LowerHex, LowerHex, LowerHex, LowerHex,
      LowerHex, LowerHex, LowerHex, LowerHex, LowerHex, LowerHex, Lit CHR ''/'']"
  by (simp add: podIDRegex_def regex_before_def regex_group_def regex_after_def eval_nat_numeral)

theorem GetFromFile_not_found_witness:
  "GetFromFile (single_file ''mountinfo'' mountinfo_no_pod) ''mountinfo'' = ([], Some ErrPodIDNotFound)"
proof -
  have o: "single_file ''mountinfo'' mountinfo_no_pod ''mountinfo'' = Inr mountinfo_no_pod"
    by (simp add: single_file_def)
  have r: "read_err mountinfo_no_pod = None" by (simp add: mountinfo_no_pod_def)
  have l: "file_lines (content mountinfo_no_pod) =
      [''15 29 0:40 / /var/lib/containers/abc rw - tmpfs tmpfs rw'']"
    unfolding mountinfo_no_pod_def by code_simp
  have n: "FindStringSubmatch ''15 29 0:40 / /var/lib/containers/abc rw - tmpfs tmpfs rw'' = []"
    by (simp add: FindStringSubmatch_def podIDRegex_unfold)
  have "\<forall>l\<in>set (file_lines (content mountinfo_no_pod)).
      length l < maxTokenSize \<and> FindStringSubmatch l = []"
    unfolding l using n by (simp add: maxTokenSize_def)
  from GetFromFile_not_found
      [where fs = "single_file ''mountinfo'' mountinfo_no_pod" and path = "''mountinfo''", OF o r this]
  show ?thesis by simp
qed

lemma GetFromFile_first_match:
  assumes "fs path = Inr f"
    and "file_lines (content f) = before @ line # after"
    and "\<forall>l\<in>set before. length l < maxTokenSize \<and> FindStringSubmatch l = []"
    and "length line < maxTokenSize"
    and "FindStringSubmatch line = [m, u]"
  shows "GetFromFile fs path = (u, None)"
  using assms(1) scan_loop_first_match [OF assms(2-5)] by (simp add: GetFromFile_def)

text \<open>
  C9 (as amended). In a file that opens, take the earliest line that matches the pod
  pattern, and suppose that it and every line before it are shorter than
  \<^verbatim>\<open>maxTokenSize\<close>. Then that line is \<open>pre @ /pods/u/ @ post\<close> for a pod identifier \<open>u\<close>
  with no match of the pattern starting anywhere in \<open>pre\<close>; the matcher produces for it
  the one capture \<open>u\<close>; and \<^verbatim>\<open>GetFromFile\<close> returns \<open>u\<close> with no error, whatever the
  lines \<open>after\<close> it are and however the reads of the file end, so nothing after that
  line is looked at.
\<close>

theorem GetFromFile_returns_earliest_match:
  assumes "fs path = Inr f"
    and "file_lines (content f) = before @ line # after"
    and "\<forall>l\<in>set before. length l < maxTokenSize \<and> FindStringSubmatch l = []"
    and "length line < maxTokenSize"
    and "FindStringSubmatch line \<noteq> []"
  shows "\<exists>pre u post.
           line = pre @ ''/pods/'' @ u @ CHR ''/'' # post \<and> is_uuid u \<and>
           (\<forall>i<length pre. \<not> match_here podIDRegex (drop i line)) \<and>
           FindStringSubmatch line = [''/pods/'' @ u @ ''/'', u] \<and>
           GetFromFile fs path = (u, None)"
proof -
  from FindStringSubmatch_matchD [OF assms(5)]
  obtain pre u post where l: "line = pre @ ''/pods/'' @ u @ CHR ''/'' # post" "is_uuid u"
    "\<forall>i<length pre. \<not> match_here podIDRegex (drop i line)"
    "FindStringSubmatch line = [''/pods/'' @ u @ ''/'', u]" by blast
  from GetFromFile_first_match [where fs = fs and path = path, OF assms(1-4) l(4)]
  have "GetFromFile fs path = (u, None)" .
  with l show ?thesis by blast
qed

theorem GetFromFile_returns_earliest_match_witness:
  "GetFromFile (single_file ''mountinfo'' mountinfo_two_pods) ''mountinfo''
     = (''036da4f7-d553-4eb6-9802-90f81041a412'', None)"
proof -
  have o: "single_file ''mountinfo'' mountinfo_two_pods ''mountinfo'' = Inr mountinfo_two_pods"
    by (simp add: single_file_def)
  have l: "file_lines (content mountinfo_two_pods) =
      [''12582 11777 0:786 / / rw,relatime - overlay overlay rw''] @
      ''29 37 0:25 / /var/lib/kubelet/pods/036da4f7-d553-4eb6-9802-90f81041a412/volumes rw'' #
      [''30 37 0:25 / /var/lib/kubelet/pods/0f8fad5b-d9cb-469f-a165-70867728950e/etc-hosts rw'']"
    unfolding mountinfo_two_pods_def by code_simp
  have n: "\<forall>l\<in>set [''12582 11777 0:786 / / rw,relatime - overlay overlay rw''].
      length l < maxTokenSize \<and> FindStringSubmatch l = []"
    by (simp add: FindStringSubmatch_def podIDRegex_unfold maxTokenSize_def)
  have s: "length ''29 37 0:25 / /var/lib/kubelet/pods/036da4f7-d553-4eb6-9802-90f81041a412/volumes rw''
      < maxTokenSize"
    by (simp add: maxTokenSize_def)
  have m: "FindStringSubmatch
      ''29 37 0:25 / /var/lib/kubelet/pods/036da4f7-d553-4eb6-9802-90f81041a412/volumes rw''
      = [''/pods/036da4f7-d553-4eb6-9802-90f81041a412/'', ''036da4f7-d553-4eb6-9802-90f81041a412'']"
    by (simp add: FindStringSubmatch_def podIDRegex_unfold podIDRegex_length)
  then have ne: "FindStringSubmatch
      ''29 37 0:25 / /var/lib/kubelet/pods/036da4f7-d553-4eb6-9802-90f81041a412/volumes rw'' \<noteq> []"
    by simp
  from GetFromFile_returns_earliest_match
      [where fs = "single_file ''mountinfo'' mountinfo_two_pods" and path = "''mountinfo''",
       OF o l n s ne]
  show ?thesis unfolding m by auto
qed

lemma leftmost_none_of_first:
  assumes "\<forall>c\<in>set s. \<not> accepts p c"
  shows "leftmost (p # ps) s = None"
  using assms by (induction s) simp_all

lemma FindStringSubmatch_replicate_a: "FindStringSubmatch (replicate n CHR ''a'') = []"
proof -
  have "leftmost podIDRegex (replicate n CHR ''a'') = None"
    unfolding podIDRegex_unfold by (rule leftmost_none_of_first) simp
  then show ?thesis by (simp add: FindStringSubmatch_Nil_iff)
qed

theorem GetFromFile_earliest_match_counterexample:
  "file_lines (content mountinfo_long_first_line) =
     [replicate maxTokenSize CHR ''a'',
      ''29 37 0:25 / /var/lib/kubelet/pods/036da4f7-d553-4eb6-9802-90f81041a412/etc-hosts rw'',
      ''30 37 0:25 / /var/lib/kubelet/pods/036da4f7-d553-4eb6-9802-90f81041a412/etc-hosts rw''] \<and>
   FindStringSubmatch (replicate maxTokenSize CHR ''a'') = [] \<and>
   FindStringSubmatch
     ''29 37 0:25 / /var/lib/kubelet/pods/036da4f7-d553-4eb6-9802-90f81041a412/etc-hosts rw''
     = [''/pods/036da4f7-d553-4eb6-9802-90f81041a412/'', ''036da4f7-d553-4eb6-9802-90f81041a412''] \<and>
   FindStringSubmatch
     ''30 37 0:25 / /var/lib/kubelet/pods/036da4f7-d553-4eb6-9802-90f81041a412/etc-hosts rw''
     = [''/pods/036da4f7-d553-4eb6-9802-90f81041a412/'', ''036da4f7-d553-4eb6-9802-90f81041a412''] \<and>
   GetFromFile (single_file ''mountinfo'' mountinfo_long_first_line) ''mountinfo''
     = ([], Some (Errorf ''error reading mountinfo: '' ErrTooLong))"
proof -
  have nl: "NL \<notin> set (replicate maxTokenSize CHR ''a'')" by (simp add: NL_def)
  have l2: "file_lines
      (''29 37 0:25 / /var/lib/kubelet/pods/036da4f7-d553-4eb6-9802-90f81041a412/etc-hosts rw'' @ [NL] @
       ''30 37 0:25 / /var/lib/kubelet/pods/036da4f7-d553-4eb6-9802-90f81041a412/etc-hosts rw'' @ [NL])
      = [''29 37 0:25 / /var/lib/kubelet/pods/036da4f7-d553-4eb6-9802-90f81041a412/etc-hosts rw'',
         ''30 37 0:25 / /var/lib/kubelet/pods/036da4f7-d553-4eb6-9802-90f81041a412/etc-hosts rw'']"
    by code_simp
  have l: "file_lines (content mountinfo_long_first_line) =
     [replicate maxTokenSize CHR ''a'',
      ''29 37 0:25 / /var/lib/kubelet/pods/036da4f7-d553-4eb6-9802-90f81041a412/etc-hosts rw'',
      ''30 37 0:25 / /var/lib/kubelet/pods/036da4f7-d553-4eb6-9802-90f81041a412/etc-hosts rw'']"
    using file_lines_line [OF nl] l2 by (simp add: mountinfo_long_first_line_def)
  have m1: "FindStringSubmatch
     ''29 37 0:25 / /var/lib/kubelet/pods/036da4f7-d553-4eb6-9802-90f81041a412/etc-hosts rw''
     = [''/pods/036da4f7-d553-4eb6-9802-90f81041a412/'', ''036da4f7-d553-4eb6-9802-90f81041a412'']"
    by (simp add: FindStringSubmatch_def podIDRegex_unfold podIDRegex_length)
  have m2: "FindStringSubmatch
     ''30 37 0:25 / /var/lib/kubelet/pods/036da4f7-d553-4eb6-9802-90f81041a412/etc-hosts rw''
     = [''/pods/036da4f7-d553-4eb6-9802-90f81041a412/'', ''036da4f7-d553-4eb6-9802-90f81041a412'']"
    by (simp add: FindStringSubmatch_def podIDRegex_unfold podIDRegex_length)
  have "takeWhile (\<lambda>c. c \<noteq> NL) (content mountinfo_long_first_line) = replicate maxTokenSize CHR ''a''"
    using nl by (auto simp: mountinfo_long_first_line_def takeWhile_tail)
  then have "maxTokenSize \<le> length (takeWhile (\<lambda>c. c \<noteq> NL) (content mountinfo_long_first_line))"
    by simp
  from scan_loop_TooLong [OF this]
  have g: "GetFromFile (single_file ''mountinfo'' mountinfo_long_first_line) ''mountinfo''
     = ([], Some (Errorf ''error reading mountinfo: '' ErrTooLong))"
    by (simp add: GetFromFile_def single_file_def)
  from l FindStringSubmatch_replicate_a m1 m2 g show ?thesis by blast
qed

lemma leftmost_firstD:
  assumes "leftmost re (pre @ t) = Some t"
  shows "\<forall>i<length pre. \<not> match_here re (drop i (pre @ t))"
proof -
  from leftmost_SomeD [OF assms] obtain pre' where
    p: "pre @ t = pre' @ t" "\<forall>i<length pre'. \<not> match_here re (drop i (pre @ t))" by blast
  from p(1) have "pre' = pre" by simp
  with p(2) show ?thesis by simp
qed

text \<open>
  C5 (as amended). In a file that opens, let a line hold the fragment
  \<open>/pods/u/etc-hosts\<close> for a pod identifier \<open>u\<close>, with no match of the pod pattern
  starting earlier in that line, no match in any line before it, and that line and the
  lines before it shorter than \<^verbatim>\<open>maxTokenSize\<close>. Then \<^verbatim>\<open>GetFromFile\<close> returns exactly \<open>u\<close>,
  36 characters without a slash, and no error.
\<close>

theorem GetFromFile_etc_hosts_fragment:
  assumes "fs path = Inr f"
    and "file_lines (content f) = before @ line # after"
    and "\<forall>l\<in>set before. length l < maxTokenSize \<and> FindStringSubmatch l = []"
    and "length line < maxTokenSize"
    and "line = pre @ ''/pods/'' @ u @ ''/etc-hosts'' @ post"
    and "is_uuid u"
    and "\<forall>i<length pre. \<not> match_here podIDRegex (drop i line)"
  shows "GetFromFile fs path = (u, None) \<and> length u = 36 \<and> CHR ''/'' \<notin> set u"
proof -
  have l: "line = pre @ ''/pods/'' @ u @ CHR ''/'' # (''etc-hosts'' @ post)"
    using assms(5) by simp
  from assms(7) have "\<forall>i<length pre.
      \<not> match_here podIDRegex (drop i (pre @ ''/pods/'' @ u @ CHR ''/'' # (''etc-hosts'' @ post)))"
    unfolding l .
  from FindStringSubmatch_first [OF assms(6) this]
  have "FindStringSubmatch line = [''/pods/'' @ u @ ''/'', u]" unfolding l .
  from GetFromFile_first_match [where fs = fs and path = path, OF assms(1-4) this]
  have "GetFromFile fs path = (u, None)" .
  moreover from assms(6) have "length u = 36" by (simp add: is_uuid_def)
  moreover from assms(6) have "CHR ''/'' \<notin> set u" by (rule is_uuid_no_slash)
  ultimately show ?thesis by simp
qed

theorem GetFromFile_etc_hosts_fragment_witness:
  "GetFromFile (single_file ''mountinfo'' mountinfo_one_pod) ''mountinfo''
     = (''036da4f7-d553-4eb6-9802-90f81041a412'', None)"
proof -
  let ?pre = "''29 37 0:25 / /var/lib/kubelet''"
  let ?u = "''036da4f7-d553-4eb6-9802-90f81041a412''"
  let ?post = "'' rw,relatime - tmpfs tmpfs rw''"
  let ?line = "?pre @ ''/pods/'' @ ?u @ ''/etc-hosts'' @ ?post"
  have o: "single_file ''mountinfo'' mountinfo_one_pod ''mountinfo'' = Inr mountinfo_one_pod"
    by (simp add: single_file_def)
  have "file_lines (content mountinfo_one_pod) = [?line]"
    unfolding mountinfo_one_pod_def by code_simp
  then have l: "file_lines (content mountinfo_one_pod) = [] @ ?line # []" by simp
  have b: "\<forall>l\<in>set []. length l < maxTokenSize \<and> FindStringSubmatch l = []" by simp
  have s: "length ?line < maxTokenSize" by (simp add: maxTokenSize_def)
  have u: "is_uuid ?u" by (simp add: is_uuid_def hex_group_def)
  have "leftmost podIDRegex (?pre @ (''/pods/'' @ ?u @ ''/etc-hosts'' @ ?post))
      = Some (''/pods/'' @ ?u @ ''/etc-hosts'' @ ?post)"
    by (simp add: podIDRegex_unfold)
  from leftmost_firstD [OF this]
  have f: "\<forall>i<length ?pre. \<not> match_here podIDRegex (drop i ?line)" .
  from GetFromFile_etc_hosts_fragment
      [where fs = "single_file ''mountinfo'' mountinfo_one_pod" and path = "''mountinfo''",
       OF o l b s refl u f]
  show ?thesis by simp
qed

theorem GetFromFile_etc_hosts_fragment_counterexample:
  "file_lines (content mountinfo_etc_hosts_second) ! 1 =
     ''30 37 0:25 / /var/lib/kubelet/pods/0f8fad5b-d9cb-469f-a165-70867728950e/etc-hosts rw'' \<and>
   is_uuid ''0f8fad5b-d9cb-469f-a165-70867728950e'' \<and>
   GetFromFile (single_file ''mountinfo'' mountinfo_etc_hosts_second) ''mountinfo''
     = (''036da4f7-d553-4eb6-9802-90f81041a412'', None) \<and>
   file_lines (content mountinfo_long_first_line) ! 1 =
     ''29 37 0:25 / /var/lib/kubelet/pods/036da4f7-d553-4eb6-9802-90f81041a412/etc-hosts rw'' \<and>
   is_uuid ''036da4f7-d553-4eb6-9802-90f81041a412'' \<and>
   GetFromFile (single_file ''mountinfo'' mountinfo_long_first_line) ''mountinfo''
     = ([], Some (Errorf ''error reading mountinfo: '' ErrTooLong))"
proof -
  have l: "file_lines (content mountinfo_etc_hosts_second) =
      [] @ ''29 37 0:25 / /var/lib/kubelet/pods/036da4f7-d553-4eb6-9802-90f81041a412/volumes rw'' #
      [''30 37 0:25 / /var/lib/kubelet/pods/0f8fad5b-d9cb-469f-a165-70867728950e/etc-hosts rw'']"
    unfolding mountinfo_etc_hosts_second_def by code_simp
  have m: "FindStringSubmatch
      ''29 37 0:25 / /var/lib/kubelet/pods/036da4f7-d553-4eb6-9802-90f81041a412/volumes rw''
      = [''/pods/036da4f7-d553-4eb6-9802-90f81041a412/'', ''036da4f7-d553-4eb6-9802-90f81041a412'']"
    by (simp add: FindStringSubmatch_def podIDRegex_unfold podIDRegex_length)
  have o: "single_file ''mountinfo'' mountinfo_etc_hosts_second ''mountinfo''
      = Inr mountinfo_etc_hosts_second"
    by (simp add: single_file_def)
  have g1: "GetFromFile (single_file ''mountinfo'' mountinfo_etc_hosts_second) ''mountinfo''
     = (''036da4f7-d553-4eb6-9802-90f81041a412'', None)"
    by (rule GetFromFile_first_match
        [where fs = "single_file ''mountinfo'' mountinfo_etc_hosts_second" and path = "''mountinfo''",
         OF o l _ _ m])
       (simp_all add: maxTokenSize_def)
  have l1: "file_lines (content mountinfo_etc_hosts_second) ! 1 =
     ''30 37 0:25 / /var/lib/kubelet/pods/0f8fad5b-d9cb-469f-a165-70867728950e/etc-hosts rw''"
    unfolding l by simp
  have nl: "NL \<notin> set (replicate maxTokenSize CHR ''a'')" by (simp add: NL_def)
  have "file_lines
      (''29 37 0:25 / /var/lib/kubelet/pods/036da4f7-d553-4eb6-9802-90f81041a412/etc-hosts rw'' @ [NL] @
       ''30 37 0:25 / /var/lib/kubelet/pods/036da4f7-d553-4eb6-9802-90f81041a412/etc-hosts rw'' @ [NL])
      = [''29 37 0:25 / /var/lib/kubelet/pods/036da4f7-d553-4eb6-9802-90f81041a412/etc-hosts rw'',
         ''30 37 0:25 / /var/lib/kubelet/pods/036da4f7-d553-4eb6-9802-90f81041a412/etc-hosts rw'']"
    by code_simp
  then have l2: "file_lines (content mountinfo_long_first_line) ! 1 =
     ''29 37 0:25 / /var/lib/kubelet/pods/036da4f7-d553-4eb6-9802-90f81041a412/etc-hosts rw''"
    using file_lines_line [OF nl] by (simp add: mountinfo_long_first_line_def)
  have "takeWhile (\<lambda>c. c \<noteq> NL) (content mountinfo_long_first_line) = replicate maxTokenSize CHR ''a''"
    using nl by (auto simp: mountinfo_long_first_line_def takeWhile_tail)
  then have "maxTokenSize \<le> length (takeWhile (\<lambda>c. c \<noteq> NL) (content mountinfo_long_first_line))"
    by simp
  from scan_loop_TooLong [OF this]
  have g2: "GetFromFile (single_file ''mountinfo'' mountinfo_long_first_line) ''mountinfo''
     = ([], Some (Errorf ''error reading mountinfo: '' ErrTooLong))"
    by (simp add: GetFromFile_def single_file_def)
  have u1: "is_uuid ''0f8fad5b-d9cb-469f-a165-70867728950e''"
    by (simp add: is_uuid_def hex_group_def)
  have u2: "is_uuid ''036da4f7-d553-4eb6-9802-90f81041a412''"
    by (simp add: is_uuid_def hex_group_def)
  from l1 u1 g1 l2 u2 g2 show ?thesis by blast
qed

lemma file_lines_single:
  assumes "NL \<notin> set line" and "line \<noteq> []"
    and "data = line \<or> data = line @ [NL]"
  shows "file_lines data = [] @ line # []"
proof -
  from assms(3) show ?thesis
  proof
    assume "data = line"
    with assms(1,2) show ?thesis by (simp add: file_lines_last)
  next
    assume "data = line @ [NL]"
    with file_lines_line [OF assms(1), of "[]"] show ?thesis by (simp add: file_lines_Nil)
  qed
qed

text \<open>
  C7. Let a file that opens consist of a single line (with or without its newline) of
  more than 70 KB and fewer than \<^verbatim>\<open>maxTokenSize\<close> = 1048576 bytes, holding \<open>/pods/u/\<close>
  for a pod identifier \<open>u\<close> anywhere. The line does not fit the initial buffer of 64 KB
  and does fit after the buffer has grown. The matcher finds a match in it, and
  \<^verbatim>\<open>GetFromFile\<close> returns the capture of the leftmost match, a pod identifier, with no
  error; it is \<open>u\<close> when no match starts before that occurrence.
\<close>

theorem GetFromFile_long_single_line:
  assumes "fs path = Inr f"
    and "content f = line \<or> content f = line @ [NL]"
    and "NL \<notin> set line"
    and "70 * 1024 < length line"
    and "length line < maxTokenSize"
    and "line = pre @ ''/pods/'' @ u @ CHR ''/'' # post"
    and "is_uuid u"
  shows "\<exists>m v. FindStringSubmatch line = [m, v] \<and> is_uuid v \<and>
           GetFromFile fs path = (v, None) \<and>
           ((\<forall>i<length pre. \<not> match_here podIDRegex (drop i line)) \<longrightarrow> v = u) \<and>
           \<not> buf_fits (length line) startBufSize startBufSize \<and>
           buf_fits (length line) startBufSize maxTokenSize"
proof -
  from assms(4) have ne: "line \<noteq> []" by auto
  from file_lines_single [OF assms(3) ne assms(2)]
  have l: "file_lines (content f) = [] @ line # []" .
  have b: "\<forall>l\<in>set []. length l < maxTokenSize \<and> FindStringSubmatch l = []" by simp
  have "FindStringSubmatch line \<noteq> []"
    unfolding assms(6) using assms(7) by (rule FindStringSubmatch_contains)
  from FindStringSubmatch_matchD [OF this]
  obtain pre' v post' where v: "line = pre' @ ''/pods/'' @ v @ CHR ''/'' # post'" "is_uuid v"
    "FindStringSubmatch line = [''/pods/'' @ v @ ''/'', v]" by blast
  from GetFromFile_first_match [where fs = fs and path = path, OF assms(1) l b assms(5) v(3)]
  have g: "GetFromFile fs path = (v, None)" .
  have first: "v = u" if "\<forall>i<length pre. \<not> match_here podIDRegex (drop i line)"
  proof -
    from that have "\<forall>i<length pre.
        \<not> match_here podIDRegex (drop i (pre @ ''/pods/'' @ u @ CHR ''/'' # post))"
      unfolding assms(6) .
    from FindStringSubmatch_first [OF assms(7) this] v(3) show ?thesis
      unfolding assms(6) [symmetric] by simp
  qed
  have n: "\<not> buf_fits (length line) startBufSize startBufSize"
    using assms(4) by (simp add: buf_fits_iff startBufSize_def)
  have y: "buf_fits (length line) startBufSize maxTokenSize"
    using assms(5) by (simp add: buf_fits_start)
  from v(2,3) g first n y show ?thesis by blast
qed

theorem GetFromFile_long_single_line_witness:
  "GetFromFile (single_file ''mountinfo'' mountinfo_long_line) ''mountinfo''
     = (''0f8fad5b-d9cb-469f-a165-70867728950e'', None)"
proof -
  let ?pre = "''29 37 0:25 / /var/lib/kubelet''"
  let ?u = "''0f8fad5b-d9cb-469f-a165-70867728950e''"
  let ?post = "''etc-hosts'' @ replicate (70 * 1024) CHR ''a'' @ '' rw,relatime - tmpfs tmpfs rw''"
  let ?line = "?pre @ ''/pods/'' @ ?u @ CHR ''/'' # ?post"
  have o: "single_file ''mountinfo'' mountinfo_long_line ''mountinfo'' = Inr mountinfo_long_line"
    by (simp add: single_file_def)
  have c: "content mountinfo_long_line = ?line \<or> content mountinfo_long_line = ?line @ [NL]"
    by (simp add: mountinfo_long_line_def)
  have nl: "NL \<notin> set ?line" by (simp add: NL_def)
  have lo: "70 * 1024 < length ?line" by simp
  have hi: "length ?line < maxTokenSize" by (simp add: maxTokenSize_def)
  have u: "is_uuid ?u" by (simp add: is_uuid_def hex_group_def)
  have m: "FindStringSubmatch ?line = [''/pods/'' @ ?u @ ''/'', ?u]"
    by (simp add: FindStringSubmatch_def podIDRegex_unfold podIDRegex_length)
  from GetFromFile_long_single_line
      [where fs = "single_file ''mountinfo'' mountinfo_long_line" and path = "''mountinfo''",
       OF o c nl lo hi refl u]
  show ?thesis unfolding m by auto
qed

section \<open>Properties of the two-tier container strategy\<close>

lemma Split_nonempty: "Split s sep \<noteq> []"
  by (subst Split.simps) (simp split: list.splits)

lemma takeWhile_stop:
  "\<not> P y \<Longrightarrow> takeWhile P (xs @ y # ys) = takeWhile P xs"
  by (induction xs) simp_all

lemma last_Split: "last (Split s sep) = rev (takeWhile (\<lambda>c. c \<noteq> sep) (rev s))"
proof (induction s sep rule: Split.induct)
  case (1 s sep)
  show ?case
  proof (cases "dropWhile (\<lambda>c. c \<noteq> sep) s")
    case Nil
    then have all: "\<forall>c\<in>set s. c \<noteq> sep" by (simp add: dropWhile_eq_Nil_conv)
    then have tw: "takeWhile (\<lambda>c. c \<noteq> sep) (rev s) = rev s"
      by (simp add: takeWhile_eq_all_conv)
    have sp: "Split s sep = [s]" by (subst Split.simps) (simp only: Nil list.simps)
    show ?thesis unfolding sp tw by simp
  next
    case (Cons x rest)
    then have x: "x = sep" using hd_dropWhile [of "\<lambda>c. c \<noteq> sep" s] by auto
    have "s = takeWhile (\<lambda>c. c \<noteq> sep) s @ dropWhile (\<lambda>c. c \<noteq> sep) s" by simp
    with Cons x have s: "s = takeWhile (\<lambda>c. c \<noteq> sep) s @ sep # rest" by simp
    from Cons have sp: "Split s sep = takeWhile (\<lambda>c. c \<noteq> sep) s # Split rest sep"
      by (subst Split.simps) simp
    have "rev s = rev rest @ sep # rev (takeWhile (\<lambda>c. c \<noteq> sep) s)"
      by (subst s) simp
    then have "takeWhile (\<lambda>c. c \<noteq> sep) (rev s) = takeWhile (\<lambda>c. c \<noteq> sep) (rev rest)"
      by (simp add: takeWhile_stop)
    with 1 [OF Cons] sp show ?thesis by (simp add: Split_nonempty)
  qed
qed

lemma last_Split_nonempty:
  assumes "c \<noteq> []" and "last c \<noteq> sep"
  shows "last (Split c sep) \<noteq> []"
proof -
  from assms(1) obtain x xs where r: "rev c = x # xs" by (cases "rev c") auto
  from assms(1) have "hd (rev c) = last c" by (simp add: hd_rev)
  with r have "x = last c" by simp
  with assms(2) have "takeWhile (\<lambda>x. x \<noteq> sep) (x # xs) \<noteq> []" by simp
  then have "takeWhile (\<lambda>x. x \<noteq> sep) (rev c) \<noteq> []" unfolding r .
  then show ?thesis unfolding last_Split by simp
qed

lemma last_filter_keep: "xs \<noteq> [] \<Longrightarrow> P (last xs) \<Longrightarrow> last (filter P xs) = last xs"
proof (induction xs)
  case Nil
  then show ?case by simp
next
  case (Cons x xs)
  show ?case
  proof (cases "xs = []")
    case True
    with Cons.prems show ?thesis by simp
  next
    case False
    with Cons.prems have p: "P (last xs)" by simp
    from False have "last xs \<in> set xs" by (rule last_in_set)
    with p have "filter P xs \<noteq> []" by (auto simp: filter_empty_conv)
    with Cons.IH [OF False p] False show ?thesis by simp
  qed
qed

lemma last_nonempty_segment_last:
  assumes "c \<noteq> []" and "last c \<noteq> CHR ''/''"
  shows "last_nonempty_segment c = Some (last (Split c CHR ''/''))"
proof -
  let ?xs = "Split c CHR ''/''"
  have ne: "last ?xs \<noteq> []" using assms by (rule last_Split_nonempty)
  have "last ?xs \<in> set ?xs"
    using Split_nonempty [of c "CHR ''/''"] by (rule last_in_set)
  with ne have f: "filter (\<lambda>seg. seg \<noteq> []) ?xs \<noteq> []"
    by (auto simp: filter_empty_conv)
  have l: "last (filter (\<lambda>seg. seg \<noteq> []) ?xs) = last ?xs"
    using Split_nonempty [of c "CHR ''/''"] ne by (rule last_filter_keep)
  from f obtain seg segs where fs: "filter (\<lambda>seg. seg \<noteq> []) ?xs = seg # segs"
    by (cases "filter (\<lambda>seg. seg \<noteq> []) ?xs") auto
  with l have "last (seg # segs) = last ?xs" by simp
  with fs show ?thesis unfolding last_nonempty_segment_def by simp
qed

text \<open>
  C4 (as amended). When \<^verbatim>\<open>/proc/self/cpuset\<close> reads as \<open>c\<close> and the trimmed \<open>c\<close> is not
  \<open>/\<close>, \<^verbatim>\<open>getContainerID\<close> returns, with no error, the last segment of \<open>c\<close> split on \<open>/\<close>
  with its newlines deleted, and leaves the environment as it is, so
  \<^verbatim>\<open>containerid.Get\<close> is not called. The last segment is the text after the last \<open>/\<close> (all
  of \<open>c\<close> when it holds none); it is empty when \<open>c\<close> is empty or ends in \<open>/\<close>, and is the
  last non-empty segment when \<open>c\<close> is not empty and does not end in \<open>/\<close>.
\<close>

theorem getContainerID_cgroup_v1:
  assumes "ReadFile (filesys e) ''/proc/self/cpuset'' = Inr c" and "TrimSpace c \<noteq> ''/''"
  shows "getContainerID containerid_Get e = ((Replace (last (Split c CHR ''/'')), None), e) \<and>
         last (Split c CHR ''/'') = rev (takeWhile (\<lambda>x. x \<noteq> CHR ''/'') (rev c)) \<and>
         (c \<noteq> [] \<and> last c \<noteq> CHR ''/'' \<longrightarrow>
            last_nonempty_segment c = Some (last (Split c CHR ''/'')))"
proof -
  have "Split c CHR ''/'' ! (length (Split c CHR ''/'') - 1) = last (Split c CHR ''/'')"
    using Split_nonempty [of c "CHR ''/''"] by (simp add: last_conv_nth)
  with assms have "getContainerID containerid_Get e =
      ((Replace (last (Split c CHR ''/'')), None), e)"
    by (simp add: getContainerID_def Let_def)
  then show ?thesis
    using last_Split [of c "CHR ''/''"] last_nonempty_segment_last [of c] by simp
qed

theorem getContainerID_cgroup_v1_witness:
  "getContainerID (stub_ok ''unused'')
     (cgroup_env (''/docker/4f3c0b9e7d1a'' @ [NL]))
   = ((''4f3c0b9e7d1a'', None), cgroup_env (''/docker/4f3c0b9e7d1a'' @ [NL])) \<and>
   last_nonempty_segment (''/docker/4f3c0b9e7d1a'' @ [NL]) = Some (''4f3c0b9e7d1a'' @ [NL])"
proof -
  let ?c = "''/docker/4f3c0b9e7d1a'' @ [NL]"
  have r: "ReadFile (filesys (cgroup_env ?c)) ''/proc/self/cpuset'' = Inr ?c"
    by (simp add: ReadFile_def cgroup_env_def single_file_def)
  have "TrimSpace ?c = ''/docker/4f3c0b9e7d1a''" by code_simp
  then have t: "TrimSpace ?c \<noteq> ''/''" by simp
  have s: "Split ?c CHR ''/'' = [[], ''docker'', ''4f3c0b9e7d1a'' @ [NL]]" by code_simp
  have ne: "?c \<noteq> [] \<and> last ?c \<noteq> CHR ''/''" by (simp add: NL_def)
  from getContainerID_cgroup_v1 [OF r t, of "stub_ok ''unused''"] ne
  show ?thesis unfolding s by (simp add: Replace_def NL_def)
qed

theorem getContainerID_cgroup_v1_counterexample:
  "TrimSpace ''/docker/4f3c0b9e7d1a/'' \<noteq> ''/'' \<and>
   last_nonempty_segment ''/docker/4f3c0b9e7d1a/'' = Some ''4f3c0b9e7d1a'' \<and>
   fst (getContainerID (stub_ok ''unused'') (cgroup_env ''/docker/4f3c0b9e7d1a/'')) = ([], None)"
proof -
  let ?c = "''/docker/4f3c0b9e7d1a/''"
  have r: "ReadFile (filesys (cgroup_env ?c)) ''/proc/self/cpuset'' = Inr ?c"
    by (simp add: ReadFile_def cgroup_env_def single_file_def)
  have "TrimSpace ?c = ?c" by code_simp
  then have t: "TrimSpace ?c \<noteq> ''/''" by simp
  have s: "Split ?c CHR ''/'' = [[], ''docker'', ''4f3c0b9e7d1a'', []]" by code_simp
  have l: "last_nonempty_segment ?c = Some ''4f3c0b9e7d1a''"
    by (simp add: last_nonempty_segment_def s)
  have "fst (getContainerID (stub_ok ''unused'') (cgroup_env ?c)) = ([], None)"
    using r t by (simp add: getContainerID_def Let_def s Replace_def)
  with t l show ?thesis by simp
qed

text \<open>
  C3, at an input where the code departs from it: \<^verbatim>\<open>/proc/self/cpuset\<close> holds the root
  cgroup and \<^verbatim>\<open>containerid.Get\<close> fails because the mount table cannot be opened.
  \<^verbatim>\<open>getContainerID\<close> returns \<^verbatim>\<open>ErrContainerIDNotFound\<close>, which does not wrap the error of
  \<^verbatim>\<open>containerid.Get\<close>.
\<close>

theorem getContainerID_drops_fallback_error:
  "fst (getContainerID
          (stub_fail_once
             (Errorf ''failed to open /proc/self/mountinfo: '' (OS (PathError ''permission denied'')))
             ''unused'')
          (cgroup_env (''/'' @ [NL])))
     = ([], Some ErrContainerIDNotFound) \<and>
   \<not> errors_Is ErrContainerIDNotFound
       (Errorf ''failed to open /proc/self/mountinfo: '' (OS (PathError ''permission denied'')))"
proof -
  let ?c = "''/'' @ [NL]"
  have r: "ReadFile (filesys (cgroup_env ?c)) ''/proc/self/cpuset'' = Inr ?c"
    by (simp add: ReadFile_def cgroup_env_def single_file_def)
  have t: "TrimSpace ?c = ''/''" by code_simp
  have "cid (cgroup_env ?c) = 0" by (simp add: cgroup_env_def)
  with r t show ?thesis
    by (simp add: getContainerID_def Let_def stub_fail_once_def)
qed

end
